theory Spec2Isabelle
  imports Main "HOL-Library.Word" "HOL-Library.AList" "HOL-Library.Multiset"
begin

section \<open>The in-memory rendezvous sync provider (sync_inmem_provider.go)\<close>

text \<open>
  The provider keeps a registry of topics, one per namespace. A topic holds the map of its
  subscribers (peer to stream writer) and the last record announced for the namespace.
  \<open>Register\<close> stores a record and writes it to the subscribers; \<open>handleStream\<close> is the
  loop of one inbound stream, which subscribes the remote peer on request and removes it
  from the topics it joined when the read fails.

  Go values that are references are modelled with an explicit store: a
  \<open>*PubSubSubscribers\<close> is an index into \<open>topic_store\<close>, and a Go map value (itself a
  reference to the map object) is an index into \<open>map_store\<close>. Assigning a map copies the
  reference, not the entries.
\<close>

subsection \<open>Data\<close>

text \<open>\<open>peer.ID\<close> is a Go string type; \<open>string\<close> is a list of bytes.\<close>

type_synonym peer_ID = string

text \<open>A \<open>ggio.Writer\<close>: the delimited writer of one stream, identified by the stream.\<close>

type_synonym Writer = nat

text \<open>
  An instant of the wall clock, in nanoseconds since the Unix epoch. \<open>time.Duration\<close> is
  an \<open>int64\<close> count of nanoseconds.
\<close>

type_synonym Time = int
type_synonym Duration = "64 word"

text \<open>
  Modelled from the spec: the wire schema of package \<open>pb\<close>, which is not among the
  sources. The record type carries the identity string, the address list of opaque byte
  blobs, the namespace string and the expiry as an epoch-millisecond timestamp
  (\<open>UnixMilli\<close> returns an \<open>int64\<close>).
\<close>

record RegistrationRecord =
  rec_Id :: string
  rec_Addrs :: "8 word list list"
  rec_Ns :: string
  rec_Ttl :: "64 word"

text \<open>
  Modelled from the spec: the request type of package \<open>pb\<close>, a message with a type tag
  and a discover/subscribe part carrying a namespace string. The handler reads the tag
  (\<open>req.Type\<close>) and the part (\<open>req.DiscoverSubscribe.Ns\<close>) as two fields; the part is a
  pointer, \<open>None\<close> when the message does not carry it.
\<close>

datatype MessageType = Message_DISCOVER_SUBSCRIBE | Message_OTHER nat

record Message_DiscoverSubscribe =
  ds_Ns :: string

record Message =
  msg_Type :: MessageType
  msg_DiscoverSubscribe :: "Message_DiscoverSubscribe option"

record PubSubSubscribers =
  subscribers :: nat
  lastAnnouncement :: "RegistrationRecord option"

record PubSub =
  host :: peer_ID
  topics :: "(string \<times> nat) list"
  topic_store :: "PubSubSubscribers list"
  map_store :: "(peer_ID \<times> Writer) list list"

record PubSubSubscriptionDetails =
  PeerID :: string
  ChannelName :: string

subsection \<open>Environment\<close>

text \<open>
  What the code observes of the outside, at one step: the clock, the outcome of
  \<open>WriteMsg\<close> on a writer (\<open>None\<close> is a nil error), and the order in which a
  \<open>range\<close> over a Go map yields its entries, which the language leaves unspecified.
  \<open>ID_String\<close> is \<open>peer.ID.String\<close> and \<open>json_quote\<close> is the string encoder of
  \<open>encoding/json\<close>; both are total library functions taken as parameters.
\<close>

record env =
  now :: Time
  write_err :: "Writer \<Rightarrow> RegistrationRecord \<Rightarrow> string option"
  range_subscribers :: "(peer_ID \<times> Writer) list \<Rightarrow> (peer_ID \<times> Writer) list"
  range_topics :: "string list \<Rightarrow> string list"
  ID_String :: "peer_ID \<Rightarrow> string"
  json_quote :: "string \<Rightarrow> string"

datatype event =
  WriteMsg Writer RegistrationRecord
| LogError string
| Reset Writer

datatype panic = NilPointerDereference

subsection \<open>Library functions\<close>

definition Second :: Duration where
  "Second = 1000000000"

text \<open>\<open>Time.Add\<close>: the instant \<open>d\<close> nanoseconds later, \<open>d\<close> read as a signed value.\<close>

definition time_Add :: "Time \<Rightarrow> Duration \<Rightarrow> Time" where
  "time_Add t d = t + sint d"

text \<open>\<open>Time.UnixMilli\<close>: whole milliseconds since the epoch, as an \<open>int64\<close>.\<close>

definition UnixMilli :: "Time \<Rightarrow> 64 word" where
  "UnixMilli t = word_of_int (t div 1000000)"

text \<open>
  The values \<open>json.Marshal\<close> is given, as far as the provider builds them, and the kinds
  it refuses: a string is encoded by the string encoder, a struct field by field, a
  channel or function value is an unsupported type.
\<close>

datatype go_value =
  GoString string
| GoStruct "(string \<times> go_value) list"
| GoUnsupported string

fun json_encode :: "(string \<Rightarrow> string) \<Rightarrow> go_value \<Rightarrow> string + string"
  and json_fields :: "(string \<Rightarrow> string) \<Rightarrow> (string \<times> go_value) list \<Rightarrow> string + string"
where
  "json_encode q (GoString s) = Inr (q s)"
| "json_encode q (GoUnsupported ty) = Inl (''json: unsupported type: '' @ ty)"
| "json_encode q (GoStruct fs) =
     (case json_fields q fs of Inl e \<Rightarrow> Inl e | Inr body \<Rightarrow> Inr (''{'' @ body @ ''}''))"
| "json_fields q [] = Inr []"
| "json_fields q ((name, v) # fs) =
     (case json_encode q v of
        Inl e \<Rightarrow> Inl e
      | Inr enc \<Rightarrow>
          (case json_fields q fs of
             Inl e \<Rightarrow> Inl e
           | Inr rest \<Rightarrow>
               Inr (q name @ '':'' @ enc @ (if fs = [] then [] else '','') @ rest)))"

definition json_Marshal :: "(string \<Rightarrow> string) \<Rightarrow> go_value \<Rightarrow> string + string" where
  "json_Marshal q v = json_encode q v"

definition go_value_of_details :: "PubSubSubscriptionDetails \<Rightarrow> go_value" where
  "go_value_of_details d =
     GoStruct [(''PeerID'', GoString (PeerID d)), (''ChannelName'', GoString (ChannelName d))]"

subsection \<open>The provider\<close>

definition ServiceType :: string where
  "ServiceType = ''inmem''"

definition ServiceProto :: string where
  "ServiceProto = ''/rendezvous/sync/inmem/1.0.0''"

definition NewSyncInMemProvider :: "peer_ID \<Rightarrow> PubSub" where
  "NewSyncInMemProvider h = \<lparr>host = h, topics = [], topic_store = [], map_store = []\<rparr>"

text \<open>
  \<open>Subscribe\<close> returns the descriptor, or the error of \<open>json.Marshal\<close> wrapped
  (\<open>Inl\<close>). It has no access to the registry besides reading \<open>ps.host\<close>.
\<close>

definition Subscribe :: "env \<Rightarrow> PubSub \<Rightarrow> string \<Rightarrow> string + string" where
  "Subscribe e ps ns =
     (case json_Marshal (json_quote e)
             (go_value_of_details \<lparr>PeerID = ID_String e (host ps), ChannelName = ns\<rparr>) of
        Inl err \<Rightarrow> Inl (''unable to marshal subscription details: '' @ err)
      | Inr details \<Rightarrow> Inr details)"

definition GetServiceType :: "PubSub \<Rightarrow> string" where
  "GetServiceType ps = ServiceType"

text \<open>
  \<open>getOrCreateTopic\<close> returns the pointer stored for the namespace, or allocates a topic
  with a new empty map and stores its pointer.
\<close>

definition getOrCreateTopic :: "PubSub \<Rightarrow> string \<Rightarrow> nat \<times> PubSub" where
  "getOrCreateTopic ps ns =
     (case map_of (topics ps) ns of
        Some subs \<Rightarrow> (subs, ps)
      | None \<Rightarrow>
          (let m = length (map_store ps);
               r = length (topic_store ps)
           in (r, ps\<lparr>map_store := map_store ps @ [[]],
                     topic_store := topic_store ps @ [\<lparr>subscribers = m, lastAnnouncement = None\<rparr>],
                     topics := AList.update ns r (topics ps)\<rparr>)))"

text \<open>
  \<open>Register\<close>, lines 83 to 94: the record is built and stored under the topic's lock, and
  \<open>toNotify\<close> is assigned the topic's map value, a reference. \<open>ttlAsSeconds\<close> is a Go
  \<open>int\<close>, 64 bits wide on the 64-bit targets; its conversion to \<open>time.Duration\<close> keeps
  the bits and the product with \<open>time.Second\<close> wraps around.
\<close>

definition Register_publish ::
  "env \<Rightarrow> PubSub \<Rightarrow> peer_ID \<Rightarrow> string \<Rightarrow> 8 word list list \<Rightarrow> 64 word \<Rightarrow> 64 word
     \<Rightarrow> PubSub \<times> RegistrationRecord \<times> nat" where
  "Register_publish e ps pid ns addrs ttlAsSeconds counter =
     (let (r, ps1) = getOrCreateTopic ps ns;
          dataToSend = \<lparr>rec_Id = ID_String e pid, rec_Addrs = addrs, rec_Ns = ns,
                        rec_Ttl = UnixMilli (time_Add (now e) (ttlAsSeconds * Second))\<rparr>;
          t = topic_store ps1 ! r;
          ps2 = ps1\<lparr>topic_store := (topic_store ps1)[r := t\<lparr>lastAnnouncement := Some dataToSend\<rparr>]\<rparr>;
          toNotify = subscribers t
      in (ps2, dataToSend, toNotify))"

text \<open>The body of the loop of lines 96 to 100, over the entries the \<open>range\<close> yields.\<close>

fun notify :: "env \<Rightarrow> RegistrationRecord \<Rightarrow> (peer_ID \<times> Writer) list \<Rightarrow> event list" where
  "notify e d [] = []"
| "notify e d ((p, stream) # rest) =
     WriteMsg stream d #
     (case write_err e stream d of
        Some err \<Rightarrow> [LogError (''unable to notify rendezvous data update: '' @ err)]
      | None \<Rightarrow> []) @
     notify e d rest"

text \<open>
  \<open>Register\<close>, lines 96 to 100: the \<open>range\<close> reads the map object \<open>toNotify\<close> refers to,
  in the store as it is when the loop runs.
\<close>

definition Register_broadcast :: "env \<Rightarrow> PubSub \<Rightarrow> RegistrationRecord \<Rightarrow> nat \<Rightarrow> event list" where
  "Register_broadcast e ps dataToSend toNotify =
     notify e dataToSend (range_subscribers e (map_store ps ! toNotify))"

definition Register ::
  "env \<Rightarrow> PubSub \<Rightarrow> peer_ID \<Rightarrow> string \<Rightarrow> 8 word list list \<Rightarrow> 64 word \<Rightarrow> 64 word
     \<Rightarrow> PubSub \<times> event list" where
  "Register e ps pid ns addrs ttlAsSeconds counter =
     (let (ps2, dataToSend, toNotify) = Register_publish e ps pid ns addrs ttlAsSeconds counter
      in (ps2, Register_broadcast e ps2 dataToSend toNotify))"

definition Unregister :: "PubSub \<Rightarrow> peer_ID \<Rightarrow> string \<Rightarrow> PubSub" where
  "Unregister ps p ns = ps"

subsection \<open>The stream handler\<close>

datatype status = Reading | Terminated

text \<open>
  The locals of one run of \<open>handleStream\<close>: the remote peer of the stream's connection,
  the writer \<open>w\<close>, and \<open>subscribedTopics\<close>, a Go map used as a set.
\<close>

record session =
  RemotePeer :: peer_ID
  writer :: Writer
  subscribedTopics :: "string list"
  status :: status

datatype read_result = ReadErr string | ReadMsg Message

text \<open>Lines 124 to 129: the peer is deleted from the map of each topic the range yields.\<close>

fun cleanup :: "PubSub \<Rightarrow> peer_ID \<Rightarrow> string list \<Rightarrow> PubSub" where
  "cleanup ps p [] = ps"
| "cleanup ps p (ns # rest) =
     (let (r, ps1) = getOrCreateTopic ps ns;
          m = subscribers (topic_store ps1 ! r);
          ps2 = ps1\<lparr>map_store := (map_store ps1)[m := AList.delete p (map_store ps1 ! m)]\<rparr>
      in cleanup ps2 p rest)"

text \<open>
  Lines 137 to 153, for a discover/subscribe request that carries the namespace \<open>ns\<close>:
  a peer already in the topic's map is left as it is; otherwise the peer is stored with
  this stream's writer, the namespace is recorded, and the topic's last announcement, if
  there is one, is written to the writer.
\<close>

definition handleStream_subscribe ::
  "env \<Rightarrow> PubSub \<Rightarrow> session \<Rightarrow> string \<Rightarrow> PubSub \<times> session \<times> event list" where
  "handleStream_subscribe e ps s ns =
     (let (r, ps1) = getOrCreateTopic ps ns;
          topic = topic_store ps1 ! r;
          m = subscribers topic
      in if map_of (map_store ps1 ! m) (RemotePeer s) \<noteq> None then (ps1, s, [])
         else
           (let ps2 = ps1\<lparr>map_store :=
                       (map_store ps1)[m := AList.update (RemotePeer s) (writer s)
                                              (map_store ps1 ! m)]\<rparr>;
                s' = s\<lparr>subscribedTopics := List.insert ns (subscribedTopics s)\<rparr>
            in (ps2, s',
                (case lastAnnouncement topic of
                   None \<Rightarrow> []
                 | Some la \<Rightarrow>
                     WriteMsg (writer s) la #
                     (case write_err e (writer s) la of
                        Some err \<Rightarrow> [LogError (''unable to write announcement: '' @ err)]
                      | None \<Rightarrow> [])))))"

text \<open>
  One iteration of the loop of \<open>handleStream\<close>, given what \<open>ReadMsg\<close> returned. A failed
  read runs the cleanup and returns, and the deferred \<open>Reset\<close> closes the stream. Reading
  \<open>req.DiscoverSubscribe.Ns\<close> through a nil pointer panics.
\<close>

definition handleStream_step ::
  "env \<Rightarrow> PubSub \<Rightarrow> session \<Rightarrow> read_result \<Rightarrow> panic + (PubSub \<times> session \<times> event list)" where
  "handleStream_step e ps s rd =
     (case rd of
        ReadErr err \<Rightarrow>
          Inr (cleanup ps (RemotePeer s) (range_topics e (subscribedTopics s)),
               s\<lparr>status := Terminated\<rparr>, [Reset (writer s)])
      | ReadMsg req \<Rightarrow>
          if msg_Type req \<noteq> Message_DISCOVER_SUBSCRIBE then Inr (ps, s, [])
          else
            (case msg_DiscoverSubscribe req of
               None \<Rightarrow> Inl NilPointerDereference
             | Some ds \<Rightarrow> Inr (handleStream_subscribe e ps s (ds_Ns ds))))"

text \<open>
  \<open>handleStream\<close> on the successive outcomes of \<open>ReadMsg\<close>, each with the environment of
  its iteration. The function returns at the first failed read; when the outcomes run
  out the handler is waiting in \<open>ReadMsg\<close>, its status \<open>Reading\<close>.
\<close>

fun handleStream ::
  "PubSub \<Rightarrow> session \<Rightarrow> (env \<times> read_result) list \<Rightarrow> panic + (PubSub \<times> session \<times> event list)" where
  "handleStream ps s [] = Inr (ps, s, [])"
| "handleStream ps s ((e, rd) # rds) =
     (case handleStream_step e ps s rd of
        Inl p \<Rightarrow> Inl p
      | Inr (ps1, s1, ev) \<Rightarrow>
          if status s1 = Terminated then Inr (ps1, s1, ev)
          else
            (case handleStream ps1 s1 rds of
               Inl p \<Rightarrow> Inl p
             | Inr (ps2, s2, ev') \<Rightarrow> Inr (ps2, s2, ev @ ev')))"

subsection \<open>The provider and its sessions as a transition system\<close>

text \<open>
  The operations that reach the registry: the calls of the local peer, the arrival of an
  inbound stream (a new run of \<open>handleStream\<close>, with a writer of its own), and one
  iteration of a running handler. A handler that has returned reads no more.
\<close>

record system =
  pubsub :: PubSub
  sessions :: "session list"
  trace :: "event list"

datatype op =
  OpRegister peer_ID string "8 word list list" "64 word" "64 word"
| OpUnregister peer_ID string
| OpSubscribe string
| OpGetServiceType
| OpStream peer_ID
| OpRead nat read_result

definition boot :: "peer_ID \<Rightarrow> system" where
  "boot h = \<lparr>pubsub = NewSyncInMemProvider h, sessions = [], trace = []\<rparr>"

fun step :: "env \<Rightarrow> op \<Rightarrow> system \<Rightarrow> panic + system" where
  "step e (OpRegister pid ns addrs ttl counter) sys =
     (let (ps', ev) = Register e (pubsub sys) pid ns addrs ttl counter
      in Inr (sys\<lparr>pubsub := ps', trace := trace sys @ ev\<rparr>))"
| "step e (OpUnregister p ns) sys = Inr (sys\<lparr>pubsub := Unregister (pubsub sys) p ns\<rparr>)"
| "step e (OpSubscribe ns) sys = Inr sys"
| "step e OpGetServiceType sys = Inr sys"
| "step e (OpStream p) sys =
     Inr (sys\<lparr>sessions := sessions sys @
            [\<lparr>RemotePeer = p, writer = length (sessions sys), subscribedTopics = [],
              status = Reading\<rparr>]\<rparr>)"
| "step e (OpRead i rd) sys =
     (if i < length (sessions sys) \<and> status (sessions sys ! i) = Reading then
        (case handleStream_step e (pubsub sys) (sessions sys ! i) rd of
           Inl p \<Rightarrow> Inl p
         | Inr (ps', s', ev) \<Rightarrow>
             Inr (sys\<lparr>pubsub := ps', sessions := (sessions sys)[i := s'],
                      trace := trace sys @ ev\<rparr>))
      else Inr sys)"

fun run :: "(env \<times> op) list \<Rightarrow> system \<Rightarrow> panic + system" where
  "run [] sys = Inr sys"
| "run ((e, a) # rest) sys =
     (case step e a sys of Inl p \<Rightarrow> Inl p | Inr sys' \<Rightarrow> run rest sys')"

subsection \<open>Observations and well-formed stores\<close>

text \<open>The subscriber entries and the last announcement of the topic of a namespace.\<close>

definition topic_subscribers :: "PubSub \<Rightarrow> string \<Rightarrow> (peer_ID \<times> Writer) list" where
  "topic_subscribers ps ns =
     (case map_of (topics ps) ns of
        None \<Rightarrow> []
      | Some r \<Rightarrow> map_store ps ! subscribers (topic_store ps ! r))"

definition last_announcement :: "PubSub \<Rightarrow> string \<Rightarrow> RegistrationRecord option" where
  "last_announcement ps ns =
     (case map_of (topics ps) ns of
        None \<Rightarrow> None
      | Some r \<Rightarrow> lastAnnouncement (topic_store ps ! r))"

text \<open>
  Every pointer refers to an allocated object, no two namespaces share a topic object, no
  two topics share a map object, and a map holds a key once.
\<close>

definition well_formed :: "PubSub \<Rightarrow> bool" where
  "well_formed ps \<longleftrightarrow>
     (\<forall>r \<in> set (map snd (topics ps)). r < length (topic_store ps)) \<and>
     distinct (map snd (topics ps)) \<and>
     (\<forall>t \<in> set (topic_store ps). subscribers t < length (map_store ps)) \<and>
     distinct (map subscribers (topic_store ps)) \<and>
     (\<forall>m \<in> set (map_store ps). distinct (map fst m))"

text \<open>The record a \<open>Register\<close> call builds, and the latest one built for a namespace.\<close>

definition built_record ::
  "env \<Rightarrow> peer_ID \<Rightarrow> string \<Rightarrow> 8 word list list \<Rightarrow> 64 word \<Rightarrow> RegistrationRecord" where
  "built_record e pid ns addrs ttl =
     \<lparr>rec_Id = ID_String e pid, rec_Addrs = addrs, rec_Ns = ns,
      rec_Ttl = UnixMilli (time_Add (now e) (ttl * Second))\<rparr>"

fun latest_register :: "(env \<times> op) list \<Rightarrow> string \<Rightarrow> RegistrationRecord option" where
  "latest_register [] ns = None"
| "latest_register ((e, a) # rest) ns =
     (case latest_register rest ns of
        Some d \<Rightarrow> Some d
      | None \<Rightarrow>
          (case a of
             OpRegister pid ns' addrs ttl counter \<Rightarrow>
               if ns' = ns then Some (built_record e pid ns addrs ttl) else None
           | _ \<Rightarrow> None))"

subsection \<open>Sample environments and requests\<close>

text \<open>
  An environment where every write succeeds and a \<open>range\<close> yields the entries in the
  order they were stored, one where the writes to writer 0 fail and a \<open>range\<close> yields
  the entries in reverse, and a discover/subscribe request for a namespace.
\<close>

definition sample_env :: env where
  "sample_env =
     \<lparr>now = 1700000000123456789, write_err = (\<lambda>w d. None),
      range_subscribers = (\<lambda>m. m), range_topics = (\<lambda>t. t),
      ID_String = (\<lambda>p. p), json_quote = (\<lambda>s. CHR 0x22 # s @ [CHR 0x22])\<rparr>"

definition failing_env :: env where
  "failing_env =
     sample_env\<lparr>write_err := (\<lambda>w d. if w = 0 then Some ''broken pipe'' else None),
                 range_subscribers := rev, range_topics := rev\<rparr>"

definition discover_subscribe :: "string \<Rightarrow> read_result" where
  "discover_subscribe ns =
     ReadMsg \<lparr>msg_Type = Message_DISCOVER_SUBSCRIBE,
              msg_DiscoverSubscribe = Some \<lparr>ds_Ns = ns\<rparr>\<rparr>"

text \<open>
  A run of the system: peer B opens a stream and subscribes to "chat", the local peer
  registers under "chat", peer C opens a stream and subscribes to "chat" and to "news",
  the local peer registers again while the writes to B fail, and the stream of C breaks.
\<close>

definition sample_ops :: "(env \<times> op) list" where
  "sample_ops =
     [(sample_env, OpStream ''B''),
      (sample_env, OpRead 0 (discover_subscribe ''chat'')),
      (sample_env, OpRegister ''p1'' ''chat'' [[1]] 30 1),
      (sample_env, OpStream ''C''),
      (sample_env, OpRead 1 (discover_subscribe ''chat'')),
      (sample_env, OpRead 1 (discover_subscribe ''news'')),
      (failing_env, OpRegister ''p1'' ''chat'' [[2]] 60 2),
      (failing_env, OpRead 1 (ReadErr ''EOF''))]"

text \<open>
  A provider with three topics: B and C subscribed to "chat", which has a last
  announcement, C subscribed to "news" over the same stream, and C subscribed to "misc"
  over another stream. \<open>session_C\<close> is the handler of the first stream of C, and
  \<open>session_D\<close> the handler of a new stream of a peer D.
\<close>

definition sample_record :: RegistrationRecord where
  "sample_record =
     \<lparr>rec_Id = ''p1'', rec_Addrs = [[1]], rec_Ns = ''chat'', rec_Ttl = 1700000030123\<rparr>"

definition sample_pubsub :: PubSub where
  "sample_pubsub =
     \<lparr>host = ''QmHost'',
      topics = [(''chat'', 0), (''news'', 1), (''misc'', 2)],
      topic_store =
        [\<lparr>subscribers = 0, lastAnnouncement = Some sample_record\<rparr>,
         \<lparr>subscribers = 1, lastAnnouncement = None\<rparr>,
         \<lparr>subscribers = 2, lastAnnouncement = None\<rparr>],
      map_store = [[(''B'', 0), (''C'', 1)], [(''C'', 1)], [(''C'', 2)]]\<rparr>"

definition session_C :: session where
  "session_C =
     \<lparr>RemotePeer = ''C'', writer = 1, subscribedTopics = [''news'', ''chat''],
      status = Reading\<rparr>"

definition session_D :: session where
  "session_D = \<lparr>RemotePeer = ''D'', writer = 3, subscribedTopics = [], status = Reading\<rparr>"

text \<open>Whether an event is a write to a stream.\<close>

fun is_write :: "event \<Rightarrow> bool" where
  "is_write (WriteMsg w d) = True"
| "is_write _ = False"

subsection \<open>The store: allocation and update\<close>

lemma update_absent: "map_of al k = None \<Longrightarrow> AList.update k v al = al @ [(k, v)]"
  by (induction al) (auto split: if_splits)

lemma getOrCreateTopic_found:
  "map_of (topics ps) ns = Some r \<Longrightarrow> getOrCreateTopic ps ns = (r, ps)"
  by (simp add: getOrCreateTopic_def)

lemma getOrCreateTopic_new:
  "map_of (topics ps) ns = None \<Longrightarrow>
   getOrCreateTopic ps ns =
     (length (topic_store ps),
      ps\<lparr>map_store := map_store ps @ [[]],
         topic_store := topic_store ps @
           [\<lparr>subscribers = length (map_store ps), lastAnnouncement = None\<rparr>],
         topics := topics ps @ [(ns, length (topic_store ps))]\<rparr>)"
  by (simp add: getOrCreateTopic_def Let_def update_absent)

lemma well_formed_getOrCreateTopic:
  assumes "well_formed ps"
  shows "well_formed (snd (getOrCreateTopic ps ns))"
proof (cases "map_of (topics ps) ns")
  case None
  show ?thesis using assms unfolding getOrCreateTopic_new [OF None] well_formed_def
    by (auto simp: less_Suc_eq nth_append)
next
  case (Some r)
  then show ?thesis using assms by (simp add: getOrCreateTopic_found)
qed

lemma ref_lt:
  "well_formed ps \<Longrightarrow> map_of (topics ps) ns = Some r \<Longrightarrow> r < length (topic_store ps)"
  unfolding well_formed_def by (force dest: map_of_SomeD)

lemma map_lt:
  "well_formed ps \<Longrightarrow> r < length (topic_store ps) \<Longrightarrow>
   subscribers (topic_store ps ! r) < length (map_store ps)"
  unfolding well_formed_def by simp

lemma snd_inj:
  "distinct (map snd xs) \<Longrightarrow> (a, r) \<in> set xs \<Longrightarrow> (b, r) \<in> set xs \<Longrightarrow> a = b"
  by (induction xs) (auto simp: image_iff)

lemma ref_inj:
  "well_formed ps \<Longrightarrow> map_of (topics ps) a = Some r \<Longrightarrow> map_of (topics ps) b = Some r \<Longrightarrow> a = b"
  unfolding well_formed_def by (blast dest: map_of_SomeD snd_inj)

lemma map_inj:
  assumes "well_formed ps" "r < length (topic_store ps)" "r' < length (topic_store ps)"
    "subscribers (topic_store ps ! r) = subscribers (topic_store ps ! r')"
  shows "r = r'"
proof -
  have d: "distinct (map subscribers (topic_store ps))"
    using assms(1) by (simp add: well_formed_def)
  have "map subscribers (topic_store ps) ! r = map subscribers (topic_store ps) ! r'"
    using assms by simp
  then show ?thesis using nth_eq_iff_index_eq [OF d, of r r'] assms(2,3) by simp
qed

lemma getOrCreateTopic_ref:
  "map_of (topics (snd (getOrCreateTopic ps ns))) ns = Some (fst (getOrCreateTopic ps ns))"
  by (cases "map_of (topics ps) ns")
     (simp_all add: getOrCreateTopic_new getOrCreateTopic_found map_add_def)

lemma getOrCreateTopic_keeps:
  "map_of (topics ps) n = Some r \<Longrightarrow> map_of (topics (snd (getOrCreateTopic ps ns))) n = Some r"
  by (cases "map_of (topics ps) ns") (auto simp: getOrCreateTopic_new getOrCreateTopic_found map_add_def)

lemma getOrCreateTopic_subscribers:
  assumes "well_formed ps"
  shows "topic_subscribers (snd (getOrCreateTopic ps ns)) n = topic_subscribers ps n"
proof (cases "map_of (topics ps) ns")
  case None
  show ?thesis
  proof (cases "map_of (topics ps) n")
    case N: None
    then show ?thesis using None
      by (simp add: getOrCreateTopic_new topic_subscribers_def map_add_def)
  next
    case (Some r)
    with assms have "r < length (topic_store ps)" by (rule ref_lt)
    moreover from this assms have "subscribers (topic_store ps ! r) < length (map_store ps)"
      by (simp add: map_lt)
    ultimately show ?thesis using None Some
      by (simp add: getOrCreateTopic_new topic_subscribers_def map_add_def nth_append)
  qed
next
  case (Some r)
  then show ?thesis by (simp add: getOrCreateTopic_found)
qed

lemma getOrCreateTopic_last:
  assumes "well_formed ps"
  shows "last_announcement (snd (getOrCreateTopic ps ns)) n = last_announcement ps n"
proof (cases "map_of (topics ps) ns")
  case None
  show ?thesis
  proof (cases "map_of (topics ps) n")
    case N: None
    then show ?thesis using None
      by (simp add: getOrCreateTopic_new last_announcement_def map_add_def)
  next
    case (Some r)
    with assms have "r < length (topic_store ps)" by (rule ref_lt)
    then show ?thesis using None Some
      by (simp add: getOrCreateTopic_new last_announcement_def map_add_def nth_append)
  qed
next
  case (Some r)
  then show ?thesis by (simp add: getOrCreateTopic_found)
qed

lemma set_map_subscribers:
  assumes "well_formed ps" "map_of (topics ps) ns = Some r"
  shows "topic_subscribers (ps\<lparr>map_store := (map_store ps)[subscribers (topic_store ps ! r) := v]\<rparr>) n =
         (if n = ns then v else topic_subscribers ps n)"
proof (cases "map_of (topics ps) n")
  case None
  then show ?thesis using assms by (auto simp: topic_subscribers_def)
next
  case (Some r')
  have r: "r < length (topic_store ps)" and r': "r' < length (topic_store ps)"
    using assms Some by (auto intro: ref_lt)
  have m: "subscribers (topic_store ps ! r) < length (map_store ps)"
    using assms(1) r by (rule map_lt)
  show ?thesis
  proof (cases "n = ns")
    case True
    then show ?thesis using assms Some m by (simp add: topic_subscribers_def)
  next
    case False
    then have "r' \<noteq> r" using ref_inj [OF assms(1) Some] assms(2) by blast
    then have "subscribers (topic_store ps ! r') \<noteq> subscribers (topic_store ps ! r)"
      using map_inj [OF assms(1) r' r] by blast
    then show ?thesis using False Some by (simp add: topic_subscribers_def)
  qed
qed

lemma set_map_last:
  "last_announcement (ps\<lparr>map_store := ms\<rparr>) n = last_announcement ps n"
  by (simp add: last_announcement_def split: option.splits)

lemma set_map_well_formed:
  assumes "well_formed ps" "distinct (map fst v)"
  shows "well_formed (ps\<lparr>map_store := (map_store ps)[m := v]\<rparr>)"
  using assms unfolding well_formed_def
  by (auto dest!: set_update_subset_insert [THEN subsetD])

lemma set_last_last:
  assumes "well_formed ps" "map_of (topics ps) ns = Some r"
  shows "last_announcement
           (ps\<lparr>topic_store := (topic_store ps)[r := (topic_store ps ! r)\<lparr>lastAnnouncement := x\<rparr>]\<rparr>) n =
         (if n = ns then x else last_announcement ps n)"
proof (cases "map_of (topics ps) n")
  case None
  then show ?thesis using assms by (auto simp: last_announcement_def)
next
  case (Some r')
  have r: "r < length (topic_store ps)" using assms by (rule ref_lt)
  show ?thesis
  proof (cases "n = ns")
    case True
    then show ?thesis using assms r by (simp add: last_announcement_def)
  next
    case False
    then have "r' \<noteq> r" using ref_inj [OF assms(1) Some] assms(2) by blast
    then show ?thesis using False Some by (simp add: last_announcement_def)
  qed
qed

lemma set_last_subscribers:
  "topic_subscribers
     (ps\<lparr>topic_store := (topic_store ps)[r := (topic_store ps ! r)\<lparr>lastAnnouncement := x\<rparr>]\<rparr>) n =
   topic_subscribers ps n"
proof -
  have "subscribers (((topic_store ps)[r := (topic_store ps ! r)\<lparr>lastAnnouncement := x\<rparr>]) ! k) =
        subscribers (topic_store ps ! k)" for k
    by (cases "r < length (topic_store ps)"; cases "k = r") (simp_all add: list_update_beyond)
  then show ?thesis by (simp add: topic_subscribers_def split: option.splits)
qed

lemma set_last_well_formed:
  assumes "well_formed ps"
  shows "well_formed
     (ps\<lparr>topic_store := (topic_store ps)[r := (topic_store ps ! r)\<lparr>lastAnnouncement := x\<rparr>]\<rparr>)"
proof -
  have "map subscribers ((topic_store ps)[r := (topic_store ps ! r)\<lparr>lastAnnouncement := x\<rparr>]) =
        map subscribers (topic_store ps)"
    by (cases "r < length (topic_store ps)")
       (simp_all add: map_update list_update_same_conv list_update_beyond)
  moreover have "\<forall>t \<in> set ((topic_store ps)[r := (topic_store ps ! r)\<lparr>lastAnnouncement := x\<rparr>]).
                   subscribers t < length (map_store ps)"
    using assms unfolding well_formed_def
    by (cases "r < length (topic_store ps)")
       (auto dest!: set_update_subset_insert [THEN subsetD] simp: list_update_beyond)
  ultimately show ?thesis using assms unfolding well_formed_def by simp
qed

subsection \<open>What \<open>Register\<close> does to the store\<close>

lemma Register_publish_unfold:
  "Register_publish e ps pid ns addrs ttl c =
     (let r = fst (getOrCreateTopic ps ns); ps1 = snd (getOrCreateTopic ps ns)
      in (ps1\<lparr>topic_store := (topic_store ps1)
               [r := (topic_store ps1 ! r)\<lparr>lastAnnouncement := Some (built_record e pid ns addrs ttl)\<rparr>]\<rparr>,
          built_record e pid ns addrs ttl,
          subscribers (topic_store ps1 ! r)))"
  by (simp add: Register_publish_def built_record_def Let_def split: prod.splits)

lemma Register_publish_record:
  "fst (snd (Register_publish e ps pid ns addrs ttl c)) = built_record e pid ns addrs ttl"
  by (simp add: Register_publish_unfold Let_def)

lemma Register_publish_well_formed:
  "well_formed ps \<Longrightarrow> well_formed (fst (Register_publish e ps pid ns addrs ttl c))"
  by (simp add: Register_publish_unfold Let_def set_last_well_formed well_formed_getOrCreateTopic)

lemma Register_publish_subscribers:
  "well_formed ps \<Longrightarrow>
   topic_subscribers (fst (Register_publish e ps pid ns addrs ttl c)) n = topic_subscribers ps n"
  by (simp add: Register_publish_unfold Let_def set_last_subscribers getOrCreateTopic_subscribers)

lemma Register_publish_last:
  assumes "well_formed ps"
  shows "last_announcement (fst (Register_publish e ps pid ns addrs ttl c)) n =
         (if n = ns then Some (built_record e pid ns addrs ttl) else last_announcement ps n)"
  using set_last_last [OF well_formed_getOrCreateTopic [OF assms] getOrCreateTopic_ref, of ns _ n]
  by (simp add: Register_publish_unfold Let_def getOrCreateTopic_last [OF assms])

lemma Register_publish_topics:
  "map_of (topics ps) n = Some r \<Longrightarrow>
   map_of (topics (fst (Register_publish e ps pid ns addrs ttl c))) n = Some r"
  by (simp add: Register_publish_unfold Let_def getOrCreateTopic_keeps)

lemma Register_publish_toNotify:
  assumes "well_formed ps"
  shows "map_store (fst (Register_publish e ps pid ns addrs ttl c)) !
           snd (snd (Register_publish e ps pid ns addrs ttl c)) = topic_subscribers ps ns"
proof -
  have "topic_subscribers (snd (getOrCreateTopic ps ns)) ns = topic_subscribers ps ns"
    using assms by (rule getOrCreateTopic_subscribers)
  then show ?thesis
    by (simp add: Register_publish_unfold Let_def topic_subscribers_def getOrCreateTopic_ref)
qed

lemma Register_eq:
  assumes "well_formed ps"
  shows "Register e ps pid ns addrs ttl c =
           (fst (Register_publish e ps pid ns addrs ttl c),
            notify e (built_record e pid ns addrs ttl) (range_subscribers e (topic_subscribers ps ns)))"
  using Register_publish_toNotify [OF assms, of e pid ns addrs ttl c]
    Register_publish_record [of e ps pid ns addrs ttl c]
  by (cases "Register_publish e ps pid ns addrs ttl c")
     (simp add: Register_def Register_broadcast_def)

subsection \<open>What the cleanup does to the store\<close>

lemma cleanup_Cons: "cleanup ps p (ns # rest) = cleanup (cleanup ps p [ns]) p rest"
  by (simp add: Let_def split: prod.splits)

lemma cleanup_single:
  "cleanup ps p [ns] =
     (let r = fst (getOrCreateTopic ps ns); ps1 = snd (getOrCreateTopic ps ns);
          m = subscribers (topic_store ps1 ! r)
      in ps1\<lparr>map_store := (map_store ps1)[m := AList.delete p (map_store ps1 ! m)]\<rparr>)"
  by (simp add: Let_def split: prod.splits)

declare cleanup.simps(2) [simp del]

lemma topic_subscribers_ref:
  "map_of (topics ps) ns = Some r \<Longrightarrow>
   map_store ps ! subscribers (topic_store ps ! r) = topic_subscribers ps ns"
  by (simp add: topic_subscribers_def)

lemma topic_subscribers_distinct:
  assumes "well_formed ps"
  shows "distinct (map fst (topic_subscribers ps ns))"
proof (cases "map_of (topics ps) ns")
  case None
  then show ?thesis by (simp add: topic_subscribers_def)
next
  case (Some r)
  have "subscribers (topic_store ps ! r) < length (map_store ps)"
    using assms Some by (simp add: ref_lt map_lt)
  then have "map_store ps ! subscribers (topic_store ps ! r) \<in> set (map_store ps)"
    by (rule nth_mem)
  then show ?thesis using assms Some by (simp add: topic_subscribers_def well_formed_def)
qed

lemma cleanup_single_well_formed:
  assumes "well_formed ps"
  shows "well_formed (cleanup ps p [ns])"
proof -
  let ?ps1 = "snd (getOrCreateTopic ps ns)"
  have w: "well_formed ?ps1" using assms by (rule well_formed_getOrCreateTopic)
  have "distinct (map fst (AList.delete p (topic_subscribers ?ps1 ns)))"
    using topic_subscribers_distinct [OF w] by (rule distinct_delete)
  then show ?thesis
    unfolding cleanup_single Let_def topic_subscribers_ref [OF getOrCreateTopic_ref]
    by (rule set_map_well_formed [OF w])
qed

lemma cleanup_single_subscribers:
  assumes "well_formed ps"
  shows "topic_subscribers (cleanup ps p [ns]) n =
         (if n = ns then AList.delete p (topic_subscribers ps ns) else topic_subscribers ps n)"
proof -
  let ?ps1 = "snd (getOrCreateTopic ps ns)"
  have w: "well_formed ?ps1" using assms by (rule well_formed_getOrCreateTopic)
  show ?thesis
    unfolding cleanup_single Let_def
    by (simp add: set_map_subscribers [OF w getOrCreateTopic_ref]
        topic_subscribers_ref [OF getOrCreateTopic_ref] getOrCreateTopic_subscribers [OF assms])
qed

lemma cleanup_single_last:
  "well_formed ps \<Longrightarrow> last_announcement (cleanup ps p [ns]) n = last_announcement ps n"
  by (simp add: cleanup_single Let_def set_map_last getOrCreateTopic_last)

lemma cleanup_single_topics:
  "map_of (topics ps) n = Some r \<Longrightarrow> map_of (topics (cleanup ps p [ns])) n = Some r"
  by (simp add: cleanup_single Let_def getOrCreateTopic_keeps)

lemma cleanup_well_formed: "well_formed ps \<Longrightarrow> well_formed (cleanup ps p nss)"
proof (induction nss arbitrary: ps)
  case Nil
  then show ?case by simp
next
  case (Cons ns nss)
  then show ?case
    unfolding cleanup_Cons [of ps p ns nss] by (simp only: cleanup_single_well_formed)
qed

lemma cleanup_subscribers:
  "well_formed ps \<Longrightarrow>
   topic_subscribers (cleanup ps p nss) n =
     (if n \<in> set nss then AList.delete p (topic_subscribers ps n) else topic_subscribers ps n)"
proof (induction nss arbitrary: ps)
  case Nil
  then show ?case by simp
next
  case (Cons ns nss)
  have w: "well_formed (cleanup ps p [ns])"
    using Cons.prems by (rule cleanup_single_well_formed)
  show ?case
    unfolding cleanup_Cons [of ps p ns nss] Cons.IH [OF w]
    by (simp add: cleanup_single_subscribers [OF Cons.prems] delete_idem)
qed

lemma cleanup_last:
  "well_formed ps \<Longrightarrow> last_announcement (cleanup ps p nss) n = last_announcement ps n"
proof (induction nss arbitrary: ps)
  case Nil
  then show ?case by simp
next
  case (Cons ns nss)
  have w: "well_formed (cleanup ps p [ns])"
    using Cons.prems by (rule cleanup_single_well_formed)
  show ?case
    unfolding cleanup_Cons [of ps p ns nss] Cons.IH [OF w]
    by (rule cleanup_single_last [OF Cons.prems])
qed

lemma cleanup_topics:
  "map_of (topics ps) n = Some r \<Longrightarrow> map_of (topics (cleanup ps p nss)) n = Some r"
proof (induction nss arbitrary: ps)
  case Nil
  then show ?case by simp
next
  case (Cons ns nss)
  show ?case
    unfolding cleanup_Cons [of ps p ns nss]
    by (rule Cons.IH [OF cleanup_single_topics [OF Cons.prems]])
qed

subsection \<open>What a subscription does to the store\<close>

text \<open>The events of the confirmation write, from the last announcement of the topic.\<close>

lemma handleStream_subscribe_member:
  assumes "map_of (topic_subscribers ps ns) (RemotePeer s) \<noteq> None"
  shows "handleStream_subscribe e ps s ns = (ps, s, [])"
proof -
  obtain r where r: "map_of (topics ps) ns = Some r"
    using assms by (cases "map_of (topics ps) ns") (auto simp: topic_subscribers_def)
  show ?thesis
    using assms r
    by (simp add: handleStream_subscribe_def getOrCreateTopic_found topic_subscribers_def)
qed

lemma handleStream_subscribe_new:
  assumes "map_of (topic_subscribers ps ns) (RemotePeer s) = None" "well_formed ps"
  shows "handleStream_subscribe e ps s ns =
     (let r = fst (getOrCreateTopic ps ns); ps1 = snd (getOrCreateTopic ps ns)
      in (ps1\<lparr>map_store := (map_store ps1)[subscribers (topic_store ps1 ! r) :=
                   AList.update (RemotePeer s) (writer s) (topic_subscribers ps ns)]\<rparr>,
          s\<lparr>subscribedTopics := List.insert ns (subscribedTopics s)\<rparr>,
          (case last_announcement ps ns of
             None \<Rightarrow> []
           | Some la \<Rightarrow>
               WriteMsg (writer s) la #
               (case write_err e (writer s) la of
                  Some err \<Rightarrow> [LogError (''unable to write announcement: '' @ err)]
                | None \<Rightarrow> []))))"
proof -
  let ?r = "fst (getOrCreateTopic ps ns)" and ?ps1 = "snd (getOrCreateTopic ps ns)"
  have m: "map_store ?ps1 ! subscribers (topic_store ?ps1 ! ?r) = topic_subscribers ps ns"
    using topic_subscribers_ref [OF getOrCreateTopic_ref, of ps ns]
      getOrCreateTopic_subscribers [OF assms(2), of ns ns] by simp
  have l: "lastAnnouncement (topic_store ?ps1 ! ?r) = last_announcement ps ns"
    using getOrCreateTopic_last [OF assms(2), of ns ns] getOrCreateTopic_ref [of ps ns]
    by (simp add: last_announcement_def)
  show ?thesis
    using assms(1) m l
    by (cases "getOrCreateTopic ps ns") (simp add: handleStream_subscribe_def Let_def)
qed

lemma handleStream_subscribe_well_formed:
  assumes "well_formed ps"
  shows "well_formed (fst (handleStream_subscribe e ps s ns))"
proof (cases "map_of (topic_subscribers ps ns) (RemotePeer s)")
  case None
  have "distinct (map fst (AList.update (RemotePeer s) (writer s) (topic_subscribers ps ns)))"
    using topic_subscribers_distinct [OF assms] by (rule distinct_update)
  then show ?thesis
    by (simp add: handleStream_subscribe_new [OF None assms] Let_def
        set_map_well_formed [OF well_formed_getOrCreateTopic [OF assms]])
next
  case (Some w)
  then show ?thesis using assms by (simp add: handleStream_subscribe_member)
qed

lemma handleStream_subscribe_subscribers:
  assumes "well_formed ps"
  shows "topic_subscribers (fst (handleStream_subscribe e ps s ns)) n =
     (if n = ns \<and> map_of (topic_subscribers ps ns) (RemotePeer s) = None
      then AList.update (RemotePeer s) (writer s) (topic_subscribers ps ns)
      else topic_subscribers ps n)"
proof (cases "map_of (topic_subscribers ps ns) (RemotePeer s)")
  case None
  show ?thesis
    by (simp add: handleStream_subscribe_new [OF None assms] Let_def None
        set_map_subscribers [OF well_formed_getOrCreateTopic [OF assms] getOrCreateTopic_ref]
        getOrCreateTopic_subscribers [OF assms])
next
  case (Some w)
  then show ?thesis by (simp add: handleStream_subscribe_member)
qed

lemma handleStream_subscribe_last:
  assumes "well_formed ps"
  shows "last_announcement (fst (handleStream_subscribe e ps s ns)) n = last_announcement ps n"
proof (cases "map_of (topic_subscribers ps ns) (RemotePeer s)")
  case None
  show ?thesis
    by (simp add: handleStream_subscribe_new [OF None assms] Let_def set_map_last
        getOrCreateTopic_last [OF assms])
next
  case (Some w)
  then show ?thesis by (simp add: handleStream_subscribe_member)
qed

lemma handleStream_subscribe_topics:
  "map_of (topics ps) n = Some r \<Longrightarrow>
   map_of (topics (fst (handleStream_subscribe e ps s ns))) n = Some r"
  by (cases "getOrCreateTopic ps ns")
     (use getOrCreateTopic_keeps [of ps n r ns] in
       \<open>auto simp: handleStream_subscribe_def Let_def\<close>)

text \<open>One iteration of the handler, whatever was read.\<close>

lemma handleStream_step_cases:
  assumes "handleStream_step e ps s rd = Inr (ps', s', ev)"
  obtains
    (failed) err where "rd = ReadErr err"
      "ps' = cleanup ps (RemotePeer s) (range_topics e (subscribedTopics s))"
      "s' = s\<lparr>status := Terminated\<rparr>" "ev = [Reset (writer s)]"
  | (ignored) req where "rd = ReadMsg req" "msg_Type req \<noteq> Message_DISCOVER_SUBSCRIBE"
      "ps' = ps" "s' = s" "ev = []"
  | (subscribe) req ds where "rd = ReadMsg req" "msg_Type req = Message_DISCOVER_SUBSCRIBE"
      "msg_DiscoverSubscribe req = Some ds"
      "handleStream_subscribe e ps s (ds_Ns ds) = (ps', s', ev)"
  using assms
  by (auto simp: handleStream_step_def split: read_result.splits if_splits option.splits)

lemma handleStream_step_well_formed:
  assumes "handleStream_step e ps s rd = Inr (ps', s', ev)" "well_formed ps"
  shows "well_formed ps'"
  using assms(1)
proof (cases rule: handleStream_step_cases)
  case (failed err)
  then show ?thesis using assms(2) by (simp add: cleanup_well_formed)
next
  case (ignored req)
  then show ?thesis using assms(2) by simp
next
  case (subscribe req ds)
  then show ?thesis
    using handleStream_subscribe_well_formed [OF assms(2), of e s "ds_Ns ds"] by simp
qed

lemma handleStream_step_last:
  assumes "handleStream_step e ps s rd = Inr (ps', s', ev)" "well_formed ps"
  shows "last_announcement ps' n = last_announcement ps n"
  using assms(1)
proof (cases rule: handleStream_step_cases)
  case (failed err)
  then show ?thesis using assms(2) by (simp add: cleanup_last)
next
  case (ignored req)
  then show ?thesis by simp
next
  case (subscribe req ds)
  then show ?thesis
    using handleStream_subscribe_last [OF assms(2), of e s "ds_Ns ds" n] by simp
qed

lemma handleStream_step_topics:
  assumes "handleStream_step e ps s rd = Inr (ps', s', ev)" "map_of (topics ps) n = Some r"
  shows "map_of (topics ps') n = Some r"
  using assms(1)
proof (cases rule: handleStream_step_cases)
  case (failed err)
  then show ?thesis using assms(2) by (simp add: cleanup_topics)
next
  case (ignored req)
  then show ?thesis using assms(2) by simp
next
  case (subscribe req ds)
  then show ?thesis
    using handleStream_subscribe_topics [OF assms(2), of e s "ds_Ns ds"] by simp
qed

subsection \<open>Steps and runs of the system\<close>

lemma step_cases:
  assumes "step e a sys = Inr sys'"
  obtains
    (register) pid ns addrs ttl counter where "a = OpRegister pid ns addrs ttl counter"
      "pubsub sys' = fst (Register e (pubsub sys) pid ns addrs ttl counter)"
      "sessions sys' = sessions sys"
  | (read) i rd ev where "a = OpRead i rd" "i < length (sessions sys)"
      "status (sessions sys ! i) = Reading"
      "handleStream_step e (pubsub sys) (sessions sys ! i) rd =
         Inr (pubsub sys', sessions sys' ! i, ev)"
      "sessions sys' = (sessions sys)[i := sessions sys' ! i]"
  | (idle) "pubsub sys' = pubsub sys"
proof (cases a)
  case (OpRegister pid ns addrs ttl counter)
  then show ?thesis using assms register
    by (auto split: prod.splits)
next
  case (OpRead i rd)
  show ?thesis
  proof (cases "i < length (sessions sys) \<and> status (sessions sys ! i) = Reading")
    case True
    then show ?thesis using assms OpRead read [of i rd]
      by (auto split: sum.splits)
  next
    case False
    then show ?thesis using assms OpRead idle by auto
  qed
qed (use assms idle in \<open>auto simp: Unregister_def\<close>)

lemma well_formed_boot: "well_formed (pubsub (boot h))"
  by (simp add: boot_def NewSyncInMemProvider_def well_formed_def)

lemma Register_fst:
  "fst (Register e ps pid ns addrs ttl c) = fst (Register_publish e ps pid ns addrs ttl c)"
  by (cases "Register_publish e ps pid ns addrs ttl c") (simp add: Register_def)

lemma step_well_formed:
  assumes "step e a sys = Inr sys'" "well_formed (pubsub sys)"
  shows "well_formed (pubsub sys')"
  using assms(1)
proof (cases rule: step_cases)
  case (register pid ns addrs ttl counter)
  then show ?thesis using assms(2) by (simp add: Register_fst Register_publish_well_formed)
next
  case (read i rd ev)
  then show ?thesis using assms(2) by (blast intro: handleStream_step_well_formed)
next
  case idle
  then show ?thesis using assms(2) by simp
qed

lemma step_topics:
  assumes "step e a sys = Inr sys'" "map_of (topics (pubsub sys)) n = Some r"
  shows "map_of (topics (pubsub sys')) n = Some r"
  using assms(1)
proof (cases rule: step_cases)
  case (register pid ns addrs ttl counter)
  then show ?thesis using assms(2) by (simp add: Register_fst Register_publish_topics)
next
  case (read i rd ev)
  then show ?thesis using assms(2) by (blast intro: handleStream_step_topics)
next
  case idle
  then show ?thesis using assms(2) by simp
qed

lemma step_last:
  assumes "step e a sys = Inr sys'" "well_formed (pubsub sys)"
  shows "last_announcement (pubsub sys') n =
     (case latest_register [(e, a)] n of
        Some d \<Rightarrow> Some d
      | None \<Rightarrow> last_announcement (pubsub sys) n)"
proof (cases a)
  case (OpRegister pid ns addrs ttl counter)
  then have "pubsub sys' = fst (Register e (pubsub sys) pid ns addrs ttl counter)"
    using assms(1) by (auto split: prod.splits)
  then show ?thesis
    using assms(2) OpRegister by (simp add: Register_fst Register_publish_last)
next
  case (OpRead i rd)
  have "last_announcement (pubsub sys') n = last_announcement (pubsub sys) n"
    using assms(1)
  proof (cases rule: step_cases)
    case (register pid ns addrs ttl counter)
    then show ?thesis using OpRead by simp
  next
    case (read j rd' ev)
    then show ?thesis using assms(2) by (blast intro: handleStream_step_last)
  next
    case idle
    then show ?thesis by simp
  qed
  then show ?thesis using OpRead by simp
qed (use assms(1) in \<open>auto simp: Unregister_def\<close>)

lemma run_well_formed:
  "run ops sys = Inr sys' \<Longrightarrow> well_formed (pubsub sys) \<Longrightarrow> well_formed (pubsub sys')"
proof (induction ops arbitrary: sys)
  case Nil
  then show ?case by simp
next
  case (Cons x ops)
  obtain e a where x: "x = (e, a)" by (cases x)
  from Cons.prems(1) x obtain sys1 where s: "step e a sys = Inr sys1" "run ops sys1 = Inr sys'"
    by (auto split: sum.splits)
  show ?case using Cons.IH [OF s(2)] step_well_formed [OF s(1) Cons.prems(2)] by simp
qed

lemma run_topics:
  "run ops sys = Inr sys' \<Longrightarrow> map_of (topics (pubsub sys)) n = Some r \<Longrightarrow>
   map_of (topics (pubsub sys')) n = Some r"
proof (induction ops arbitrary: sys)
  case Nil
  then show ?case by simp
next
  case (Cons x ops)
  obtain e a where x: "x = (e, a)" by (cases x)
  from Cons.prems(1) x obtain sys1 where s: "step e a sys = Inr sys1" "run ops sys1 = Inr sys'"
    by (auto split: sum.splits)
  show ?case using Cons.IH [OF s(2)] step_topics [OF s(1) Cons.prems(2)] by simp
qed

lemma latest_register_Cons:
  "latest_register (x # ops) n =
     (case latest_register ops n of Some d \<Rightarrow> Some d | None \<Rightarrow> latest_register [x] n)"
  by (cases x) (simp split: option.splits)

lemma run_last:
  "run ops sys = Inr sys' \<Longrightarrow> well_formed (pubsub sys) \<Longrightarrow>
   last_announcement (pubsub sys') n =
     (case latest_register ops n of
        Some d \<Rightarrow> Some d
      | None \<Rightarrow> last_announcement (pubsub sys) n)"
proof (induction ops arbitrary: sys)
  case Nil
  then show ?case by simp
next
  case (Cons x ops)
  obtain e a where x: "x = (e, a)" by (cases x)
  from Cons.prems(1) x obtain sys1 where s: "step e a sys = Inr sys1" "run ops sys1 = Inr sys'"
    by (auto split: sum.splits)
  have w: "well_formed (pubsub sys1)" using s(1) Cons.prems(2) by (rule step_well_formed)
  show ?case
    unfolding Cons.IH [OF s(2) w] latest_register_Cons [of x ops n] x
      step_last [OF s(1) Cons.prems(2), of n]
    by (simp split: option.splits)
qed

subsection \<open>The expiry arithmetic\<close>

lemma sint_seconds:
  assumes "- 9223372036 \<le> sint (ttl :: 64 word)" "sint ttl \<le> 9223372036"
  shows "sint (ttl * Second) = sint ttl * 1000000000"
proof -
  have "sint (ttl * Second) = signed_take_bit 63 (sint ttl * 1000000000)"
    by (simp add: Second_def sint_word_ariths)
  also have "\<dots> = sint ttl * 1000000000"
    using assms by (simp add: signed_take_bit_int_eq_self)
  finally show ?thesis .
qed

lemma Add_seconds_div:
  assumes "- 9223372036 \<le> sint (ttl :: 64 word)" "sint ttl \<le> 9223372036"
  shows "time_Add t (ttl * Second) div 1000000 = t div 1000000 + sint ttl * 1000"
proof -
  have "(t + sint ttl * 1000000000) div 1000000 = t div 1000000 + sint ttl * 1000"
    by simp
  then show ?thesis by (simp add: time_Add_def sint_seconds [OF assms])
qed

lemma UnixMilli_Add_seconds:
  assumes "- 9223372036 \<le> sint (ttl :: 64 word)" "sint ttl \<le> 9223372036"
  shows "UnixMilli (time_Add t (ttl * Second)) = UnixMilli t + ttl * 1000"
  by (simp add: UnixMilli_def Add_seconds_div [OF assms])

lemma sint_UnixMilli:
  assumes "- (2 ^ 63) \<le> t div 1000000" "t div 1000000 < 2 ^ 63"
  shows "sint (UnixMilli t) = t div 1000000"
  using assms by (simp add: UnixMilli_def sint_sbintrunc' signed_take_bit_int_eq_self)

lemma map_of_delete_self: "map_of (AList.delete k al) k = None"
  by (simp add: delete_conv')

subsection \<open>The events of a broadcast\<close>

lemma notify_writes:
  "filter is_write (notify e d xs) = map (\<lambda>(p, w). WriteMsg w d) xs"
  by (induction xs) (auto split: option.splits)

lemma notify_write:
  "(p, w) \<in> set xs \<Longrightarrow> WriteMsg w d \<in> set (notify e d xs)"
  by (induction xs) auto

lemma notify_log:
  "(p, w) \<in> set xs \<Longrightarrow> write_err e w d = Some err \<Longrightarrow>
   LogError (''unable to notify rendezvous data update: '' @ err) \<in> set (notify e d xs)"
  by (induction xs) auto

lemma Register_publish_write_err:
  "Register_publish (e\<lparr>write_err := f\<rparr>) ps pid ns addrs ttl c =
   Register_publish e ps pid ns addrs ttl c"
  by (simp add: Register_publish_def)

lemma distinct_keys_once:
  "distinct (map fst xs) \<Longrightarrow> length (filter (\<lambda>x. fst x = p) xs) \<le> 1"
proof (induction xs)
  case Nil
  then show ?case by simp
next
  case (Cons x xs)
  have "filter (\<lambda>y. fst y = fst x) xs = []"
    using Cons.prems by (auto simp: filter_empty_conv image_iff)
  then show ?case using Cons by auto
qed

lemma handleStream_step_subscribe:
  "handleStream_step e ps s (discover_subscribe ns) = Inr (handleStream_subscribe e ps s ns)"
  by (simp add: handleStream_step_def discover_subscribe_def)

lemma handleStream_continue:
  assumes "handleStream_step e ps s rd = Inr (ps', s', ev)" "status s' \<noteq> Terminated"
  shows "handleStream ps s ((e, rd) # rds) =
     (case handleStream ps' s' rds of
        Inl p \<Rightarrow> Inl p
      | Inr (ps2, s2, ev') \<Rightarrow> Inr (ps2, s2, ev @ ev'))"
  using assms by simp

lemma Register_publish_ref:
  assumes "well_formed ps"
  shows "\<exists>r. map_of (topics (fst (Register_publish e ps pid ns addrs ttl c))) ns = Some r \<and>
             snd (snd (Register_publish e ps pid ns addrs ttl c)) =
               subscribers (topic_store (fst (Register_publish e ps pid ns addrs ttl c)) ! r)"
proof -
  let ?r = "fst (getOrCreateTopic ps ns)" and ?ps1 = "snd (getOrCreateTopic ps ns)"
  have "?r < length (topic_store ?ps1)"
    using well_formed_getOrCreateTopic [OF assms] getOrCreateTopic_ref by (rule ref_lt)
  then show ?thesis
    by (simp add: Register_publish_unfold Let_def getOrCreateTopic_ref)
qed

lemma handleStream_subscribe_store:
  assumes "map_of (topics ps) ns = Some r"
  shows "topics (fst (handleStream_subscribe e ps s ns)) = topics ps \<and>
         topic_store (fst (handleStream_subscribe e ps s ns)) = topic_store ps"
  by (simp add: handleStream_subscribe_def getOrCreateTopic_found [OF assms] Let_def)

subsection \<open>Evaluation of the samples\<close>

lemmas sample_defs =
  sample_ops_def boot_def NewSyncInMemProvider_def sample_env_def failing_env_def
  discover_subscribe_def Register_def Register_publish_def Register_broadcast_def
  getOrCreateTopic_def handleStream_step_def handleStream_subscribe_def cleanup.simps
  Let_def built_record_def UnixMilli_def time_Add_def Second_def
  sample_record_def sample_pubsub_def session_C_def session_D_def
  well_formed_def topic_subscribers_def last_announcement_def

lemma getOrCreateTopic_again:
  "getOrCreateTopic (snd (getOrCreateTopic ps ns)) ns = getOrCreateTopic ps ns"
  using getOrCreateTopic_found [OF getOrCreateTopic_ref, of ps ns] by simp

section \<open>The claims\<close>

subsection \<open>The record \<open>Register\<close> builds\<close>

text \<open>
  C6, within the range of the duration. The record a \<open>Register\<close> call builds carries
  the string form of the given identity, the given namespace and the given address list.
  When \<open>ttlSeconds\<close>
  lies between -9223372036 and 9223372036, so that the duration in nanoseconds fits an
  \<open>int64\<close>, the expiry is the call time in epoch milliseconds plus \<open>ttlSeconds\<close> times
  1000 in \<open>int64\<close> arithmetic, and it is that number exactly when the sum fits an
  \<open>int64\<close>. With \<open>ttlSeconds = 0\<close> the expiry is the call time in epoch milliseconds.
\<close>

theorem Register_record_fields:
  "(let d = fst (snd (Register_publish e ps pid ns addrs ttl c))
    in rec_Id d = ID_String e pid \<and> rec_Ns d = ns \<and> rec_Addrs d = addrs \<and>
       (- 9223372036 \<le> sint ttl \<and> sint ttl \<le> 9223372036 \<longrightarrow>
          rec_Ttl d = UnixMilli (now e) + ttl * 1000) \<and>
       (- 9223372036 \<le> sint ttl \<and> sint ttl \<le> 9223372036 \<and>
        - (2 ^ 63) \<le> now e div 1000000 + sint ttl * 1000 \<and>
        now e div 1000000 + sint ttl * 1000 < 2 ^ 63 \<longrightarrow>
          sint (rec_Ttl d) = now e div 1000000 + sint ttl * 1000) \<and>
       (ttl = 0 \<longrightarrow> rec_Ttl d = UnixMilli (now e)))"
proof -
  have "sint (UnixMilli (time_Add (now e) (ttl * Second))) = now e div 1000000 + sint ttl * 1000"
    if "- 9223372036 \<le> sint ttl" "sint ttl \<le> 9223372036"
      "- (2 ^ 63) \<le> now e div 1000000 + sint ttl * 1000"
      "now e div 1000000 + sint ttl * 1000 < 2 ^ 63"
    using that sint_UnixMilli [of "time_Add (now e) (ttl * Second)"]
    by (simp add: Add_seconds_div)
  moreover have "UnixMilli (time_Add (now e) (0 * Second)) = UnixMilli (now e)"
    by (simp add: time_Add_def)
  ultimately show ?thesis
    by (simp add: Register_publish_record built_record_def UnixMilli_Add_seconds)
qed

theorem Register_record_fields_witness:
  "- 9223372036 \<le> sint (30 :: 64 word) \<and> sint (30 :: 64 word) \<le> 9223372036 \<and>
   - (2 ^ 63) \<le> now sample_env div 1000000 + sint (30 :: 64 word) * 1000 \<and>
   now sample_env div 1000000 + sint (30 :: 64 word) * 1000 < 2 ^ 63 \<and>
   (let d = fst (snd (Register_publish sample_env (NewSyncInMemProvider ''QmHost'')
                        ''p1'' ''chat'' [[1]] 30 1))
    in rec_Id d = ''p1'' \<and> rec_Ns d = ''chat'' \<and> rec_Addrs d = [[1]] \<and>
       sint (rec_Ttl d) = 1700000030123 \<and> rec_Ttl d = UnixMilli (now sample_env) + 30000)"
  using Register_record_fields [where e = sample_env
      and ps = "NewSyncInMemProvider ''QmHost''" and pid = "''p1''" and ns = "''chat''"
      and addrs = "[[1]]" and ttl = 30 and c = 1]
  by (simp add: sample_env_def Let_def UnixMilli_def)

text \<open>
  C6 as stated fails for a larger \<open>ttlSeconds\<close>: \<open>time.Duration(ttlAsSeconds) *
  time.Second\<close> wraps around in 64 bits. With 9223372037 seconds the expiry lies in the
  past instead of 292 years ahead.
\<close>

theorem Register_ttl_overflow:
  "sint (rec_Ttl (fst (snd (Register_publish sample_env (NewSyncInMemProvider ''QmHost'')
                             ''p1'' ''chat'' [[1]] 9223372037 1)))) \<noteq>
   now sample_env div 1000000 + sint (9223372037 :: 64 word) * 1000"
  by (simp add: Register_publish_record built_record_def sample_env_def UnixMilli_def
      time_Add_def Second_def)

subsection \<open>\<open>Unregister\<close> and \<open>Subscribe\<close>\<close>

text \<open>
  C9. \<open>Unregister\<close> is a no-op for every input: the provider it leaves is the provider it
  was given, with the same registry, the same subscribers and the same last announcement
  of every topic, and as a step of the system it changes nothing.
\<close>

theorem Unregister_noop:
  "Unregister ps p ns = ps \<and>
   topics (Unregister ps p ns) = topics ps \<and>
   (\<forall>n. topic_subscribers (Unregister ps p ns) n = topic_subscribers ps n) \<and>
   (\<forall>n. last_announcement (Unregister ps p ns) n = last_announcement ps n) \<and>
   step e (OpUnregister p ns) sys = Inr sys"
  by (simp add: Unregister_def)

text \<open>
  C10. \<open>Subscribe\<close> never returns an error: for every namespace the marshalling of the
  two string fields succeeds and the result is the JSON object of the host's identity
  and the namespace. As a step of the system \<open>Subscribe\<close> changes nothing.
\<close>

theorem Subscribe_never_fails:
  "Subscribe e ps ns =
     Inr (''{'' @ json_quote e ''PeerID'' @ '':'' @ json_quote e (ID_String e (host ps)) @ '','' @
          json_quote e ''ChannelName'' @ '':'' @ json_quote e ns @ ''}'') \<and>
   step e (OpSubscribe ns) sys = Inr sys"
  by (simp add: Subscribe_def json_Marshal_def go_value_of_details_def)

subsection \<open>The topic registry\<close>

text \<open>
  C7. \<open>getOrCreateTopic\<close> is idempotent. For a namespace the registry does not hold, the
  call allocates exactly one topic, with a new empty subscriber map and no last
  announcement, and stores its pointer under the namespace, leaving every other entry and
  object as it was. A second call returns the same pointer and the same provider, and so
  does a call after any run of the system. No step of the system removes or redirects an
  entry of the registry.
\<close>

theorem getOrCreateTopic_idempotent:
  "(map_of (topics ps) ns = None \<longrightarrow>
      (case getOrCreateTopic ps ns of
         (r, ps1) \<Rightarrow>
           r = length (topic_store ps) \<and>
           topic_store ps1 =
             topic_store ps @ [\<lparr>subscribers = length (map_store ps), lastAnnouncement = None\<rparr>] \<and>
           map_store ps1 = map_store ps @ [[]] \<and>
           map_of (topics ps1) = (map_of (topics ps))(ns \<mapsto> r) \<and>
           host ps1 = host ps)) \<and>
   getOrCreateTopic (snd (getOrCreateTopic ps ns)) ns = getOrCreateTopic ps ns \<and>
   (pubsub sys = snd (getOrCreateTopic ps ns) \<and> run ops sys = Inr sys' \<longrightarrow>
      getOrCreateTopic (pubsub sys') ns = (fst (getOrCreateTopic ps ns), pubsub sys')) \<and>
   (step e a t = Inr t' \<and> map_of (topics (pubsub t)) n = Some r' \<longrightarrow>
      map_of (topics (pubsub t')) n = Some r')"
proof -
  have "getOrCreateTopic (pubsub sys') ns = (fst (getOrCreateTopic ps ns), pubsub sys')"
    if "pubsub sys = snd (getOrCreateTopic ps ns)" "run ops sys = Inr sys'"
  proof -
    have "map_of (topics (pubsub sys)) ns = Some (fst (getOrCreateTopic ps ns))"
      using that(1) by (simp add: getOrCreateTopic_ref)
    with that(2) have "map_of (topics (pubsub sys')) ns = Some (fst (getOrCreateTopic ps ns))"
      by (rule run_topics)
    then show ?thesis by (rule getOrCreateTopic_found)
  qed
  moreover have "map_of (topics (pubsub t')) n = Some r'"
    if "step e a t = Inr t'" "map_of (topics (pubsub t)) n = Some r'"
    using that by (rule step_topics)
  moreover have "map_of (topics ps @ [(ns, length (topic_store ps))]) =
      (map_of (topics ps))(ns \<mapsto> length (topic_store ps))"
    if "map_of (topics ps) ns = None"
    using that by (auto simp: map_add_def fun_eq_iff split: option.splits)
  ultimately show ?thesis
    by (auto simp: getOrCreateTopic_new getOrCreateTopic_again)
qed

theorem getOrCreateTopic_idempotent_witness:
  "map_of (topics (NewSyncInMemProvider ''QmHost'')) ''chat'' = None \<and>
   getOrCreateTopic (NewSyncInMemProvider ''QmHost'') ''chat'' =
     (0, \<lparr>host = ''QmHost'', topics = [(''chat'', 0)],
          topic_store = [\<lparr>subscribers = 0, lastAnnouncement = None\<rparr>], map_store = [[]]\<rparr>) \<and>
   (case run sample_ops
           \<lparr>pubsub = snd (getOrCreateTopic (NewSyncInMemProvider ''QmHost'') ''chat''),
            sessions = [], trace = []\<rparr> of
      Inl p \<Rightarrow> False
    | Inr sys' \<Rightarrow>
        topics (pubsub sys') = [(''chat'', 0), (''news'', 1)] \<and>
        getOrCreateTopic (pubsub sys') ''chat'' = (0, pubsub sys')) \<and>
   (case step sample_env (OpRead 0 (ReadErr ''EOF''))
           \<lparr>pubsub = snd (getOrCreateTopic (NewSyncInMemProvider ''QmHost'') ''chat''),
            sessions = [\<lparr>RemotePeer = ''B'', writer = 0, subscribedTopics = [''chat''],
                         status = Reading\<rparr>], trace = []\<rparr> of
      Inl p \<Rightarrow> False
    | Inr sys' \<Rightarrow> map_of (topics (pubsub sys')) ''chat'' = Some 0)"
proof -
  let ?ps = "NewSyncInMemProvider ''QmHost''"
  let ?sys = "\<lparr>pubsub = snd (getOrCreateTopic ?ps ''chat''), sessions = [], trace = []\<rparr>"
  let ?sys2 = "\<lparr>pubsub = snd (getOrCreateTopic ?ps ''chat''),
      sessions = [\<lparr>RemotePeer = ''B'', writer = 0, subscribedTopics = [''chat''],
                   status = Reading\<rparr>], trace = []\<rparr>"
  obtain sys' where r: "run sample_ops ?sys = Inr sys'"
    by (simp add: sample_defs)
  obtain sys3 where s: "step sample_env (OpRead 0 (ReadErr ''EOF'')) ?sys2 = Inr sys3"
    by (simp add: sample_defs)
  have h: "map_of (topics ?ps) ''chat'' = None"
    "pubsub ?sys = snd (getOrCreateTopic ?ps ''chat'')"
    "map_of (topics (pubsub ?sys2)) ''chat'' = Some 0"
    by (simp_all add: sample_defs)
  have c1: "getOrCreateTopic ?ps ''chat'' =
     (0, \<lparr>host = ''QmHost'', topics = [(''chat'', 0)],
          topic_store = [\<lparr>subscribers = 0, lastAnnouncement = None\<rparr>], map_store = [[]]\<rparr>)"
    by (simp add: sample_defs)
  have c2: "case run sample_ops ?sys of
      Inl p \<Rightarrow> False
    | Inr sys' \<Rightarrow>
        topics (pubsub sys') = [(''chat'', 0), (''news'', 1)] \<and>
        getOrCreateTopic (pubsub sys') ''chat'' = (0, pubsub sys')"
    by (simp add: sample_defs)
  have c3: "case step sample_env (OpRead 0 (ReadErr ''EOF'')) ?sys2 of
      Inl p \<Rightarrow> False
    | Inr sys' \<Rightarrow> map_of (topics (pubsub sys')) ''chat'' = Some 0"
    by (simp add: sample_defs)
  from getOrCreateTopic_idempotent [where ps = ?ps and ns = "''chat''" and sys = ?sys
      and ops = sample_ops and sys' = sys' and e = sample_env
      and a = "OpRead 0 (ReadErr ''EOF'')" and t = ?sys2 and t' = sys3
      and n = "''chat''" and r' = 0] r s h c1 c2 c3
  show ?thesis by blast
qed

text \<open>
  C8. No step of the system clears a last announcement that is set. After any run of the
  system from its start, the last announcement of a namespace is the record built by the
  latest \<open>Register\<close> call for that namespace (none when there was no such call). A
  \<open>Register\<close> call on a topic without subscribers sets the last announcement and
  produces no event: no write at all.
\<close>

theorem last_announcement_latest:
  "(step e a sys = Inr sys' \<and> well_formed (pubsub sys) \<and>
    last_announcement (pubsub sys) ns \<noteq> None \<longrightarrow>
      last_announcement (pubsub sys') ns \<noteq> None) \<and>
   (run ops (boot h) = Inr t \<longrightarrow>
      last_announcement (pubsub t) ns = latest_register ops ns) \<and>
   (well_formed ps \<and> topic_subscribers ps ns = [] \<and> range_subscribers e [] = [] \<longrightarrow>
      last_announcement (fst (Register e ps pid ns addrs ttl c)) ns =
        Some (built_record e pid ns addrs ttl) \<and>
      snd (Register e ps pid ns addrs ttl c) = [])"
proof -
  have "last_announcement (pubsub sys') ns \<noteq> None"
    if "step e a sys = Inr sys'" "well_formed (pubsub sys)"
      "last_announcement (pubsub sys) ns \<noteq> None"
    using step_last [OF that(1,2), of ns] that(3) by (simp split: option.splits)
  moreover have "last_announcement (pubsub t) ns = latest_register ops ns"
    if "run ops (boot h) = Inr t"
  proof -
    have "last_announcement (pubsub (boot h)) ns = None"
      by (simp add: boot_def NewSyncInMemProvider_def last_announcement_def)
    then show ?thesis
      using run_last [OF that well_formed_boot, of ns] by (simp split: option.splits)
  qed
  moreover have "last_announcement (fst (Register e ps pid ns addrs ttl c)) ns =
        Some (built_record e pid ns addrs ttl) \<and>
      snd (Register e ps pid ns addrs ttl c) = []"
    if "well_formed ps" "topic_subscribers ps ns = []" "range_subscribers e [] = []"
    using that by (simp add: Register_eq Register_publish_last)
  ultimately show ?thesis by blast
qed

theorem last_announcement_latest_witness:
  "(case step sample_env (OpRead 0 (ReadErr ''EOF''))
           \<lparr>pubsub = fst (Register sample_env (NewSyncInMemProvider ''QmHost'')
                            ''p1'' ''chat'' [[1]] 30 1),
            sessions = [\<lparr>RemotePeer = ''B'', writer = 0, subscribedTopics = [''chat''],
                         status = Reading\<rparr>], trace = []\<rparr> of
      Inl p \<Rightarrow> False
    | Inr sys' \<Rightarrow> last_announcement (pubsub sys') ''chat'' \<noteq> None) \<and>
   well_formed (fst (Register sample_env (NewSyncInMemProvider ''QmHost'')
                       ''p1'' ''chat'' [[1]] 30 1)) \<and>
   last_announcement (fst (Register sample_env (NewSyncInMemProvider ''QmHost'')
                             ''p1'' ''chat'' [[1]] 30 1)) ''chat'' \<noteq> None \<and>
   (case run sample_ops (boot ''QmHost'') of
      Inl p \<Rightarrow> False
    | Inr t \<Rightarrow>
        last_announcement (pubsub t) ''chat'' =
          Some \<lparr>rec_Id = ''p1'', rec_Addrs = [[2]], rec_Ns = ''chat'', rec_Ttl = 1700000060123\<rparr> \<and>
        latest_register sample_ops ''chat'' = last_announcement (pubsub t) ''chat'' \<and>
        last_announcement (pubsub t) ''news'' = None) \<and>
   well_formed (NewSyncInMemProvider ''QmHost'') \<and>
   topic_subscribers (NewSyncInMemProvider ''QmHost'') ''chat'' = [] \<and>
   range_subscribers sample_env [] = [] \<and>
   Register sample_env (NewSyncInMemProvider ''QmHost'') ''p1'' ''chat'' [[1]] 30 1 =
     (\<lparr>host = ''QmHost'', topics = [(''chat'', 0)],
       topic_store =
         [\<lparr>subscribers = 0,
           lastAnnouncement =
             Some \<lparr>rec_Id = ''p1'', rec_Addrs = [[1]], rec_Ns = ''chat'',
                   rec_Ttl = 1700000030123\<rparr>\<rparr>],
       map_store = [[]]\<rparr>, [])"
proof -
  let ?ps = "NewSyncInMemProvider ''QmHost''"
  let ?ps1 = "fst (Register sample_env ?ps ''p1'' ''chat'' [[1]] 30 1)"
  let ?sys = "\<lparr>pubsub = ?ps1,
      sessions = [\<lparr>RemotePeer = ''B'', writer = 0, subscribedTopics = [''chat''],
                   status = Reading\<rparr>], trace = []\<rparr>"
  obtain sys' where s: "step sample_env (OpRead 0 (ReadErr ''EOF'')) ?sys = Inr sys'"
    by (simp add: sample_defs)
  obtain t where r: "run sample_ops (boot ''QmHost'') = Inr t"
    by (simp add: sample_defs)
  have h: "well_formed ?ps" "well_formed ?ps1"
    "last_announcement ?ps1 ''chat'' \<noteq> None"
    "topic_subscribers ?ps ''chat'' = []" "range_subscribers sample_env [] = []"
    by (simp_all add: sample_defs)
  have c1: "case step sample_env (OpRead 0 (ReadErr ''EOF'')) ?sys of
      Inl p \<Rightarrow> False
    | Inr sys' \<Rightarrow> last_announcement (pubsub sys') ''chat'' \<noteq> None"
    by (simp add: sample_defs)
  have c2: "case run sample_ops (boot ''QmHost'') of
      Inl p \<Rightarrow> False
    | Inr t \<Rightarrow>
        last_announcement (pubsub t) ''chat'' =
          Some \<lparr>rec_Id = ''p1'', rec_Addrs = [[2]], rec_Ns = ''chat'', rec_Ttl = 1700000060123\<rparr> \<and>
        latest_register sample_ops ''chat'' = last_announcement (pubsub t) ''chat'' \<and>
        last_announcement (pubsub t) ''news'' = None"
    by (simp add: sample_defs)
  have c3: "Register sample_env ?ps ''p1'' ''chat'' [[1]] 30 1 =
     (\<lparr>host = ''QmHost'', topics = [(''chat'', 0)],
       topic_store =
         [\<lparr>subscribers = 0,
           lastAnnouncement =
             Some \<lparr>rec_Id = ''p1'', rec_Addrs = [[1]], rec_Ns = ''chat'',
                   rec_Ttl = 1700000030123\<rparr>\<rparr>],
       map_store = [[]]\<rparr>, [])"
    by (simp add: sample_defs)
  from last_announcement_latest [where e = sample_env
      and a = "OpRead 0 (ReadErr ''EOF'')" and sys = ?sys and sys' = sys'
      and ns = "''chat''" and ops = sample_ops and h = "''QmHost''" and t = t
      and ps = ?ps and pid = "''p1''" and addrs = "[[1]]" and ttl = 30 and c = 1]
    s r h c1 c2 c3
  show ?thesis by blast
qed

subsection \<open>The end of a session\<close>

text \<open>
  C2. When the read of a session fails, and the range over the joined namespaces yields
  each of them, the handler removes the session's peer from the subscriber map of every
  namespace the session joined, and only that entry; the subscriber map of every other
  namespace is as it was, and no entry of another peer is removed anywhere. The handler
  then returns: the session is terminated and reads no more.
\<close>

theorem read_failure_cleanup:
  "well_formed ps \<and> set (range_topics e (subscribedTopics s)) = set (subscribedTopics s) \<longrightarrow>
     (case handleStream_step e ps s (ReadErr err) of
        Inl p \<Rightarrow> False
      | Inr (ps', s', ev) \<Rightarrow>
          (\<forall>ns \<in> set (subscribedTopics s).
             map_of (topic_subscribers ps' ns) (RemotePeer s) = None \<and>
             topic_subscribers ps' ns = AList.delete (RemotePeer s) (topic_subscribers ps ns)) \<and>
          (\<forall>ns. ns \<notin> set (subscribedTopics s) \<longrightarrow>
             topic_subscribers ps' ns = topic_subscribers ps ns) \<and>
          (\<forall>ns q. q \<noteq> RemotePeer s \<longrightarrow>
             map_of (topic_subscribers ps' ns) q = map_of (topic_subscribers ps ns) q) \<and>
          s' = s\<lparr>status := Terminated\<rparr> \<and>
          handleStream ps s ((e, ReadErr err) # rds) = Inr (ps', s', ev) \<and>
          (\<forall>sys i e' rd. i < length (sessions sys) \<and> sessions sys ! i = s' \<longrightarrow>
             step e' (OpRead i rd) sys = Inr sys))"
proof (intro impI, elim conjE)
  assume w: "well_formed ps"
    and r: "set (range_topics e (subscribedTopics s)) = set (subscribedTopics s)"
  let ?ps' = "cleanup ps (RemotePeer s) (range_topics e (subscribedTopics s))"
  have eq: "handleStream_step e ps s (ReadErr err) =
      Inr (?ps', s\<lparr>status := Terminated\<rparr>, [Reset (writer s)])"
    by (simp add: handleStream_step_def)
  have subs: "topic_subscribers ?ps' ns =
      (if ns \<in> set (subscribedTopics s)
       then AList.delete (RemotePeer s) (topic_subscribers ps ns)
       else topic_subscribers ps ns)" for ns
    using cleanup_subscribers [OF w, of "RemotePeer s" "range_topics e (subscribedTopics s)" ns] r
    by simp
  have joined: "map_of (topic_subscribers ?ps' ns) (RemotePeer s) = None \<and>
      topic_subscribers ?ps' ns = AList.delete (RemotePeer s) (topic_subscribers ps ns)"
    if "ns \<in> set (subscribedTopics s)" for ns
    using that by (simp add: subs map_of_delete_self)
  have others: "topic_subscribers ?ps' ns = topic_subscribers ps ns"
    if "ns \<notin> set (subscribedTopics s)" for ns
    using that by (simp add: subs)
  have peers: "map_of (topic_subscribers ?ps' ns) q = map_of (topic_subscribers ps ns) q"
    if "q \<noteq> RemotePeer s" for ns q
    using that by (simp add: subs)
  have stop: "handleStream ps s ((e, ReadErr err) # rds) =
      Inr (?ps', s\<lparr>status := Terminated\<rparr>, [Reset (writer s)])"
    by (simp add: eq)
  have dead: "step e' (OpRead i rd) sys = Inr sys"
    if "i < length (sessions sys)" "sessions sys ! i = s\<lparr>status := Terminated\<rparr>"
    for sys i e' rd
    using that by simp
  show "case handleStream_step e ps s (ReadErr err) of
        Inl p \<Rightarrow> False
      | Inr (ps', s', ev) \<Rightarrow>
          (\<forall>ns \<in> set (subscribedTopics s).
             map_of (topic_subscribers ps' ns) (RemotePeer s) = None \<and>
             topic_subscribers ps' ns = AList.delete (RemotePeer s) (topic_subscribers ps ns)) \<and>
          (\<forall>ns. ns \<notin> set (subscribedTopics s) \<longrightarrow>
             topic_subscribers ps' ns = topic_subscribers ps ns) \<and>
          (\<forall>ns q. q \<noteq> RemotePeer s \<longrightarrow>
             map_of (topic_subscribers ps' ns) q = map_of (topic_subscribers ps ns) q) \<and>
          s' = s\<lparr>status := Terminated\<rparr> \<and>
          handleStream ps s ((e, ReadErr err) # rds) = Inr (ps', s', ev) \<and>
          (\<forall>sys i e' rd. i < length (sessions sys) \<and> sessions sys ! i = s' \<longrightarrow>
             step e' (OpRead i rd) sys = Inr sys)"
    unfolding eq using joined others peers stop dead by (simp add: map_of_delete_self)
qed

theorem read_failure_cleanup_witness:
  "well_formed sample_pubsub \<and>
   set (range_topics failing_env (subscribedTopics session_C)) = set (subscribedTopics session_C) \<and>
   (case handleStream_step failing_env sample_pubsub session_C (ReadErr ''EOF'') of
      Inl p \<Rightarrow> False
    | Inr (ps', s', ev) \<Rightarrow>
        topic_subscribers ps' ''chat'' = [(''B'', 0)] \<and>
        topic_subscribers ps' ''news'' = [] \<and>
        topic_subscribers ps' ''misc'' = [(''C'', 2)] \<and>
        status s' = Terminated \<and> ev = [Reset 1])"
proof -
  have h: "well_formed sample_pubsub"
    "set (range_topics failing_env (subscribedTopics session_C)) = set (subscribedTopics session_C)"
    by (auto simp: sample_defs)
  have c: "case handleStream_step failing_env sample_pubsub session_C (ReadErr ''EOF'') of
      Inl p \<Rightarrow> False
    | Inr (ps', s', ev) \<Rightarrow>
        topic_subscribers ps' ''chat'' = [(''B'', 0)] \<and>
        topic_subscribers ps' ''news'' = [] \<and>
        topic_subscribers ps' ''misc'' = [(''C'', 2)] \<and>
        status s' = Terminated \<and> ev = [Reset 1]"
    by (simp add: sample_defs)
  from read_failure_cleanup [where ps = sample_pubsub and e = failing_env
      and s = session_C and err = "''EOF''" and rds = "[]"] h c
  show ?thesis by blast
qed

subsection \<open>The broadcast of \<open>Register\<close>\<close>

text \<open>
  C3. In a \<open>Register\<close> broadcast where the range yields each subscriber entry once, every
  subscriber of the topic has the record written to its writer, whatever the outcome of
  the other writes, and each write is attempted once. A failed write is logged. The
  subscriber maps are as before the call, and the provider after the call is the same
  whatever the outcomes of the writes. A later \<open>Register\<close> for the namespace writes to
  the same subscriber again.
\<close>

theorem broadcast_write_failure:
  "well_formed ps \<and>
   mset (range_subscribers e (topic_subscribers ps ns)) = mset (topic_subscribers ps ns) \<and>
   (p, w) \<in> set (topic_subscribers ps ns) \<longrightarrow>
     (case Register e ps pid ns addrs ttl c of
        (ps', ev) \<Rightarrow>
          WriteMsg w (built_record e pid ns addrs ttl) \<in> set ev \<and>
          (\<forall>err. write_err e w (built_record e pid ns addrs ttl) = Some err \<longrightarrow>
             LogError (''unable to notify rendezvous data update: '' @ err) \<in> set ev) \<and>
          mset (filter is_write ev) =
            mset (map (\<lambda>(q, v). WriteMsg v (built_record e pid ns addrs ttl))
                   (topic_subscribers ps ns)) \<and>
          (\<forall>n. topic_subscribers ps' n = topic_subscribers ps n) \<and>
          (\<forall>f. fst (Register (e\<lparr>write_err := f\<rparr>) ps pid ns addrs ttl c) = ps') \<and>
          (\<forall>e2 pid2 addrs2 ttl2 c2.
             mset (range_subscribers e2 (topic_subscribers ps' ns)) =
               mset (topic_subscribers ps' ns) \<longrightarrow>
             WriteMsg w (built_record e2 pid2 ns addrs2 ttl2) \<in>
               set (snd (Register e2 ps' pid2 ns addrs2 ttl2 c2))))"
proof (intro impI, elim conjE)
  assume wf: "well_formed ps"
    and fair: "mset (range_subscribers e (topic_subscribers ps ns)) = mset (topic_subscribers ps ns)"
    and sub: "(p, w) \<in> set (topic_subscribers ps ns)"
  let ?d = "built_record e pid ns addrs ttl"
  let ?ps' = "fst (Register_publish e ps pid ns addrs ttl c)"
  let ?ev = "notify e ?d (range_subscribers e (topic_subscribers ps ns))"
  have eq: "Register e ps pid ns addrs ttl c = (?ps', ?ev)"
    using wf by (rule Register_eq)
  have yielded: "(p, w) \<in> set (range_subscribers e (topic_subscribers ps ns))"
    using sub mset_eq_setD [OF fair] by simp
  have attempt: "WriteMsg w ?d \<in> set ?ev"
    using yielded by (rule notify_write)
  have logged: "LogError (''unable to notify rendezvous data update: '' @ err) \<in> set ?ev"
    if "write_err e w ?d = Some err" for err
    using yielded that by (rule notify_log)
  have once: "mset (filter is_write ?ev) =
      mset (map (\<lambda>(q, v). WriteMsg v ?d) (topic_subscribers ps ns))"
    unfolding notify_writes mset_map fair ..
  have wf': "well_formed ?ps'"
    using wf by (rule Register_publish_well_formed)
  have kept: "topic_subscribers ?ps' n = topic_subscribers ps n" for n
    using wf by (rule Register_publish_subscribers)
  have state: "fst (Register (e\<lparr>write_err := f\<rparr>) ps pid ns addrs ttl c) = ?ps'" for f
    by (simp add: Register_fst Register_publish_write_err)
  have later: "WriteMsg w (built_record e2 pid2 ns addrs2 ttl2) \<in>
      set (snd (Register e2 ?ps' pid2 ns addrs2 ttl2 c2))"
    if "mset (range_subscribers e2 (topic_subscribers ?ps' ns)) = mset (topic_subscribers ?ps' ns)"
    for e2 pid2 addrs2 ttl2 c2
  proof -
    have "(p, w) \<in> set (range_subscribers e2 (topic_subscribers ?ps' ns))"
      using sub mset_eq_setD [OF that] by (simp add: kept)
    then show ?thesis
      by (simp add: Register_eq [OF wf'] notify_write)
  qed
  show "case Register e ps pid ns addrs ttl c of
        (ps', ev) \<Rightarrow>
          WriteMsg w (built_record e pid ns addrs ttl) \<in> set ev \<and>
          (\<forall>err. write_err e w (built_record e pid ns addrs ttl) = Some err \<longrightarrow>
             LogError (''unable to notify rendezvous data update: '' @ err) \<in> set ev) \<and>
          mset (filter is_write ev) =
            mset (map (\<lambda>(q, v). WriteMsg v (built_record e pid ns addrs ttl))
                   (topic_subscribers ps ns)) \<and>
          (\<forall>n. topic_subscribers ps' n = topic_subscribers ps n) \<and>
          (\<forall>f. fst (Register (e\<lparr>write_err := f\<rparr>) ps pid ns addrs ttl c) = ps') \<and>
          (\<forall>e2 pid2 addrs2 ttl2 c2.
             mset (range_subscribers e2 (topic_subscribers ps' ns)) =
               mset (topic_subscribers ps' ns) \<longrightarrow>
             WriteMsg w (built_record e2 pid2 ns addrs2 ttl2) \<in>
               set (snd (Register e2 ps' pid2 ns addrs2 ttl2 c2)))"
    unfolding eq using attempt logged once kept state later by simp
qed

theorem broadcast_write_failure_witness:
  "well_formed sample_pubsub \<and>
   mset (range_subscribers failing_env (topic_subscribers sample_pubsub ''chat'')) =
     mset (topic_subscribers sample_pubsub ''chat'') \<and>
   (''B'', 0) \<in> set (topic_subscribers sample_pubsub ''chat'') \<and>
   write_err failing_env 0 (built_record failing_env ''p1'' ''chat'' [[2]] 60) = Some ''broken pipe'' \<and>
   (case Register failing_env sample_pubsub ''p1'' ''chat'' [[2]] 60 2 of
      (ps', ev) \<Rightarrow>
        ev = [WriteMsg 1 (built_record failing_env ''p1'' ''chat'' [[2]] 60),
              WriteMsg 0 (built_record failing_env ''p1'' ''chat'' [[2]] 60),
              LogError ''unable to notify rendezvous data update: broken pipe''] \<and>
        topic_subscribers ps' ''chat'' = [(''B'', 0), (''C'', 1)] \<and>
        snd (Register sample_env ps' ''p1'' ''chat'' [[3]] 90 3) =
          [WriteMsg 0 (built_record sample_env ''p1'' ''chat'' [[3]] 90),
           WriteMsg 1 (built_record sample_env ''p1'' ''chat'' [[3]] 90)])"
proof -
  have h: "well_formed sample_pubsub"
    "mset (range_subscribers failing_env (topic_subscribers sample_pubsub ''chat'')) =
       mset (topic_subscribers sample_pubsub ''chat'')"
    "(''B'', 0) \<in> set (topic_subscribers sample_pubsub ''chat'')"
    "write_err failing_env 0 (built_record failing_env ''p1'' ''chat'' [[2]] 60) = Some ''broken pipe''"
    by (simp_all add: sample_defs)
  have c: "case Register failing_env sample_pubsub ''p1'' ''chat'' [[2]] 60 2 of
      (ps', ev) \<Rightarrow>
        ev = [WriteMsg 1 (built_record failing_env ''p1'' ''chat'' [[2]] 60),
              WriteMsg 0 (built_record failing_env ''p1'' ''chat'' [[2]] 60),
              LogError ''unable to notify rendezvous data update: broken pipe''] \<and>
        topic_subscribers ps' ''chat'' = [(''B'', 0), (''C'', 1)] \<and>
        snd (Register sample_env ps' ''p1'' ''chat'' [[3]] 90 3) =
          [WriteMsg 0 (built_record sample_env ''p1'' ''chat'' [[3]] 90),
           WriteMsg 1 (built_record sample_env ''p1'' ''chat'' [[3]] 90)]"
    by (simp add: sample_defs)
  from broadcast_write_failure [where ps = sample_pubsub and e = failing_env
      and ns = "''chat''" and p = "''B''" and w = 0 and pid = "''p1''" and addrs = "[[2]]"
      and ttl = 60 and c = 2] h c
  show ?thesis by blast
qed

subsection \<open>Subscriptions\<close>

text \<open>
  C4. A discover/subscribe request for a namespace from a peer that is already in the
  subscriber map of its topic changes nothing: the provider and the session are as
  before, and nothing is written. After any run of the system from its start, the
  subscriber map of every topic holds at most one entry for each peer.
\<close>

theorem duplicate_subscribe_noop:
  "(map_of (topic_subscribers ps ns) (RemotePeer s) \<noteq> None \<longrightarrow>
      handleStream_step e ps s (discover_subscribe ns) = Inr (ps, s, [])) \<and>
   (run ops (boot h) = Inr sys \<longrightarrow>
      length (filter (\<lambda>x. fst x = p) (topic_subscribers (pubsub sys) n)) \<le> 1)"
proof -
  have "length (filter (\<lambda>x. fst x = p) (topic_subscribers (pubsub sys) n)) \<le> 1"
    if "run ops (boot h) = Inr sys"
  proof -
    have "well_formed (pubsub sys)"
      using that well_formed_boot by (rule run_well_formed)
    then have "distinct (map fst (topic_subscribers (pubsub sys) n))"
      by (rule topic_subscribers_distinct)
    then show ?thesis by (rule distinct_keys_once)
  qed
  then show ?thesis
    by (simp add: handleStream_step_subscribe handleStream_subscribe_member)
qed

theorem duplicate_subscribe_noop_witness:
  "map_of (topic_subscribers sample_pubsub ''chat'') (RemotePeer session_C) \<noteq> None \<and>
   handleStream_step sample_env sample_pubsub session_C (discover_subscribe ''chat'') =
     Inr (sample_pubsub, session_C, []) \<and>
   (case run (sample_ops @ [(sample_env, OpRead 0 (discover_subscribe ''chat''))])
           (boot ''QmHost'') of
      Inl p \<Rightarrow> False
    | Inr sys \<Rightarrow>
        topic_subscribers (pubsub sys) ''chat'' = [(''B'', 0)] \<and>
        length (filter (\<lambda>x. fst x = ''B'') (topic_subscribers (pubsub sys) ''chat'')) \<le> 1)"
proof -
  let ?ops = "sample_ops @ [(sample_env, OpRead 0 (discover_subscribe ''chat''))]"
  have h: "map_of (topic_subscribers sample_pubsub ''chat'') (RemotePeer session_C) \<noteq> None"
    by (simp add: sample_defs)
  obtain sys where r: "run ?ops (boot ''QmHost'') = Inr sys"
    and t: "topic_subscribers (pubsub sys) ''chat'' = [(''B'', 0)]"
    by (simp add: sample_defs)
  from duplicate_subscribe_noop [where ps = sample_pubsub and ns = "''chat''"
      and s = session_C and e = sample_env and ops = ?ops and h = "''QmHost''"
      and sys = sys and p = "''B''" and n = "''chat''"] h r t
  show ?thesis by simp
qed

text \<open>
  C5. When a running session receives a discover/subscribe request for a namespace whose
  topic does not hold the peer and has a last announcement, the peer is stored with the
  session's writer and the last announcement is written to that writer at once. When the
  write fails the error is logged; in either case the session keeps reading and the
  handler goes on with the next message.
\<close>

theorem subscribe_confirmation:
  "well_formed ps \<and> map_of (topic_subscribers ps ns) (RemotePeer s) = None \<and>
   last_announcement ps ns = Some la \<and> status s = Reading \<longrightarrow>
     (case handleStream_step e ps s (discover_subscribe ns) of
        Inl p \<Rightarrow> False
      | Inr (ps', s', ev) \<Rightarrow>
          map_of (topic_subscribers ps' ns) (RemotePeer s) = Some (writer s) \<and>
          ev = WriteMsg (writer s) la #
               (case write_err e (writer s) la of
                  Some err \<Rightarrow> [LogError (''unable to write announcement: '' @ err)]
                | None \<Rightarrow> []) \<and>
          s' = s\<lparr>subscribedTopics := List.insert ns (subscribedTopics s)\<rparr> \<and>
          status s' = Reading \<and>
          handleStream ps s ((e, discover_subscribe ns) # rds) =
            (case handleStream ps' s' rds of
               Inl p \<Rightarrow> Inl p
             | Inr (ps2, s2, ev') \<Rightarrow> Inr (ps2, s2, ev @ ev')))"
proof (intro impI, elim conjE)
  assume wf: "well_formed ps"
    and new: "map_of (topic_subscribers ps ns) (RemotePeer s) = None"
    and la: "last_announcement ps ns = Some la"
    and rd: "status s = Reading"
  obtain ps' s' ev where sub: "handleStream_subscribe e ps s ns = (ps', s', ev)"
    by (cases "handleStream_subscribe e ps s ns")
  have step: "handleStream_step e ps s (discover_subscribe ns) = Inr (ps', s', ev)"
    by (simp add: handleStream_step_subscribe sub)
  have s': "s' = s\<lparr>subscribedTopics := List.insert ns (subscribedTopics s)\<rparr>"
    and ev: "ev = WriteMsg (writer s) la #
               (case write_err e (writer s) la of
                  Some err \<Rightarrow> [LogError (''unable to write announcement: '' @ err)]
                | None \<Rightarrow> [])"
    using sub la by (simp_all add: handleStream_subscribe_new [OF new wf] Let_def)
  have "topic_subscribers ps' ns =
      AList.update (RemotePeer s) (writer s) (topic_subscribers ps ns)"
    using handleStream_subscribe_subscribers [OF wf, of e s ns ns] new sub by simp
  then have member: "map_of (topic_subscribers ps' ns) (RemotePeer s) = Some (writer s)"
    by (simp add: update_conv')
  have reading: "status s' = Reading"
    using s' rd by simp
  have continue: "handleStream ps s ((e, discover_subscribe ns) # rds) =
      (case handleStream ps' s' rds of
         Inl p \<Rightarrow> Inl p
       | Inr (ps2, s2, ev') \<Rightarrow> Inr (ps2, s2, ev @ ev'))"
    using step reading by (simp add: handleStream_continue)
  show "case handleStream_step e ps s (discover_subscribe ns) of
        Inl p \<Rightarrow> False
      | Inr (ps', s', ev) \<Rightarrow>
          map_of (topic_subscribers ps' ns) (RemotePeer s) = Some (writer s) \<and>
          ev = WriteMsg (writer s) la #
               (case write_err e (writer s) la of
                  Some err \<Rightarrow> [LogError (''unable to write announcement: '' @ err)]
                | None \<Rightarrow> []) \<and>
          s' = s\<lparr>subscribedTopics := List.insert ns (subscribedTopics s)\<rparr> \<and>
          status s' = Reading \<and>
          handleStream ps s ((e, discover_subscribe ns) # rds) =
            (case handleStream ps' s' rds of
               Inl p \<Rightarrow> Inl p
             | Inr (ps2, s2, ev') \<Rightarrow> Inr (ps2, s2, ev @ ev'))"
    unfolding step sum.case prod.case by (intro conjI member ev s' reading continue)
qed

theorem subscribe_confirmation_witness:
  "well_formed sample_pubsub \<and>
   map_of (topic_subscribers sample_pubsub ''chat'') (RemotePeer session_D) = None \<and>
   last_announcement sample_pubsub ''chat'' = Some sample_record \<and>
   status session_D = Reading \<and>
   (case handleStream_step (sample_env\<lparr>write_err := \<lambda>w d. Some ''broken pipe''\<rparr>)
           sample_pubsub session_D (discover_subscribe ''chat'') of
      Inl p \<Rightarrow> False
    | Inr (ps', s', ev) \<Rightarrow>
        topic_subscribers ps' ''chat'' = [(''B'', 0), (''C'', 1), (''D'', 3)] \<and>
        ev = [WriteMsg 3 sample_record, LogError ''unable to write announcement: broken pipe''] \<and>
        subscribedTopics s' = [''chat''] \<and> status s' = Reading) \<and>
   (case handleStream sample_pubsub session_D
           [(sample_env\<lparr>write_err := \<lambda>w d. Some ''broken pipe''\<rparr>, discover_subscribe ''chat''),
            (sample_env, discover_subscribe ''news'')] of
      Inl p \<Rightarrow> False
    | Inr (ps', s', ev) \<Rightarrow>
        topic_subscribers ps' ''news'' = [(''C'', 1), (''D'', 3)] \<and>
        subscribedTopics s' = [''news'', ''chat''] \<and> status s' = Reading)"
proof -
  let ?e = "sample_env\<lparr>write_err := \<lambda>w d. Some ''broken pipe''\<rparr>"
  have h: "well_formed sample_pubsub"
    "map_of (topic_subscribers sample_pubsub ''chat'') (RemotePeer session_D) = None"
    "last_announcement sample_pubsub ''chat'' = Some sample_record"
    "status session_D = Reading"
    by (simp_all add: sample_defs)
  have c: "case handleStream_step ?e sample_pubsub session_D (discover_subscribe ''chat'') of
      Inl p \<Rightarrow> False
    | Inr (ps', s', ev) \<Rightarrow>
        topic_subscribers ps' ''chat'' = [(''B'', 0), (''C'', 1), (''D'', 3)] \<and>
        ev = [WriteMsg 3 sample_record, LogError ''unable to write announcement: broken pipe''] \<and>
        subscribedTopics s' = [''chat''] \<and> status s' = Reading"
    by (simp add: sample_defs)
  have d: "case handleStream sample_pubsub session_D
           [(?e, discover_subscribe ''chat''), (sample_env, discover_subscribe ''news'')] of
      Inl p \<Rightarrow> False
    | Inr (ps', s', ev) \<Rightarrow>
        topic_subscribers ps' ''news'' = [(''C'', 1), (''D'', 3)] \<and>
        subscribedTopics s' = [''news'', ''chat''] \<and> status s' = Reading"
    by (simp add: sample_defs)
  from subscribe_confirmation [where ps = sample_pubsub and ns = "''chat''"
      and s = session_D and la = sample_record and e = ?e
      and rds = "[(sample_env, discover_subscribe ''news'')]"] h c d
  show ?thesis by blast
qed

subsection \<open>The subscribers a broadcast writes to\<close>

text \<open>
  C1, which the code does not satisfy. \<open>toNotify\<close> is the map value of the topic, a
  reference to the map the handlers store into, not a copy of its entries. When a peer
  that is not in the map while \<open>Register\<close> holds the lock subscribes after the lock is
  released and before the loop runs, \<open>toNotify\<close> refers to the map with the peer in it,
  and the broadcast of that very \<open>Register\<close> call writes the record to the new peer.
\<close>

theorem broadcast_reads_live_map:
  "well_formed ps \<and> map_of (topic_subscribers ps ns) (RemotePeer s) = None \<longrightarrow>
     (case Register_publish e ps pid ns addrs ttl c of
        (ps1, d, toNotify) \<Rightarrow>
          map_of (map_store ps1 ! toNotify) (RemotePeer s) = None \<and>
          (case handleStream_step e1 ps1 s (discover_subscribe ns) of
             Inl p \<Rightarrow> False
           | Inr (ps2, s', ev) \<Rightarrow>
               map_store ps2 ! toNotify = topic_subscribers ps2 ns \<and>
               (RemotePeer s, writer s) \<in> set (map_store ps2 ! toNotify) \<and>
               (mset (range_subscribers e2 (map_store ps2 ! toNotify)) =
                  mset (map_store ps2 ! toNotify) \<longrightarrow>
                WriteMsg (writer s) d \<in> set (Register_broadcast e2 ps2 d toNotify))))"
proof (intro impI, elim conjE)
  assume wf: "well_formed ps"
    and new: "map_of (topic_subscribers ps ns) (RemotePeer s) = None"
  obtain ps1 d toNotify where pub: "Register_publish e ps pid ns addrs ttl c = (ps1, d, toNotify)"
    by (cases "Register_publish e ps pid ns addrs ttl c")
  obtain ps2 s' ev where sub: "handleStream_subscribe e1 ps1 s ns = (ps2, s', ev)"
    by (cases "handleStream_subscribe e1 ps1 s ns")
  have step: "handleStream_step e1 ps1 s (discover_subscribe ns) = Inr (ps2, s', ev)"
    by (simp add: handleStream_step_subscribe sub)
  have wf1: "well_formed ps1"
    using Register_publish_well_formed [OF wf, of e pid ns addrs ttl c] pub by simp
  have subs1: "topic_subscribers ps1 ns = topic_subscribers ps ns"
    using Register_publish_subscribers [OF wf, of e pid ns addrs ttl c ns] pub by simp
  have snap: "map_store ps1 ! toNotify = topic_subscribers ps ns"
    using Register_publish_toNotify [OF wf, of e pid ns addrs ttl c] pub by simp
  obtain r where r: "map_of (topics ps1) ns = Some r"
    and ref: "toNotify = subscribers (topic_store ps1 ! r)"
    using Register_publish_ref [OF wf, of e pid ns addrs ttl c] pub by auto
  have absent: "map_of (map_store ps1 ! toNotify) (RemotePeer s) = None"
    using new by (simp add: snap)
  have "topics ps2 = topics ps1" "topic_store ps2 = topic_store ps1"
    using handleStream_subscribe_store [OF r, of e1 s] sub by simp_all
  then have live: "map_store ps2 ! toNotify = topic_subscribers ps2 ns"
    using r ref by (simp add: topic_subscribers_def)
  have "topic_subscribers ps2 ns =
      AList.update (RemotePeer s) (writer s) (topic_subscribers ps1 ns)"
    using handleStream_subscribe_subscribers [OF wf1, of e1 s ns ns] new sub
    by (simp add: subs1)
  then have "map_of (topic_subscribers ps2 ns) (RemotePeer s) = Some (writer s)"
    by (simp add: update_conv')
  then have member: "(RemotePeer s, writer s) \<in> set (map_store ps2 ! toNotify)"
    unfolding live by (rule map_of_SomeD)
  have written: "WriteMsg (writer s) d \<in> set (Register_broadcast e2 ps2 d toNotify)"
    if "mset (range_subscribers e2 (map_store ps2 ! toNotify)) = mset (map_store ps2 ! toNotify)"
  proof -
    have "(RemotePeer s, writer s) \<in> set (range_subscribers e2 (map_store ps2 ! toNotify))"
      using member mset_eq_setD [OF that] by simp
    then show ?thesis
      unfolding Register_broadcast_def by (rule notify_write)
  qed
  show "case Register_publish e ps pid ns addrs ttl c of
        (ps1, d, toNotify) \<Rightarrow>
          map_of (map_store ps1 ! toNotify) (RemotePeer s) = None \<and>
          (case handleStream_step e1 ps1 s (discover_subscribe ns) of
             Inl p \<Rightarrow> False
           | Inr (ps2, s', ev) \<Rightarrow>
               map_store ps2 ! toNotify = topic_subscribers ps2 ns \<and>
               (RemotePeer s, writer s) \<in> set (map_store ps2 ! toNotify) \<and>
               (mset (range_subscribers e2 (map_store ps2 ! toNotify)) =
                  mset (map_store ps2 ! toNotify) \<longrightarrow>
                WriteMsg (writer s) d \<in> set (Register_broadcast e2 ps2 d toNotify)))"
    unfolding pub prod.case step sum.case
    using absent live member written by blast
qed

theorem broadcast_reads_live_map_witness:
  "well_formed sample_pubsub \<and>
   map_of (topic_subscribers sample_pubsub ''chat'') (RemotePeer session_D) = None \<and>
   (case Register_publish sample_env sample_pubsub ''p1'' ''chat'' [[2]] 60 2 of
      (ps1, d, toNotify) \<Rightarrow>
        map_store ps1 ! toNotify = [(''B'', 0), (''C'', 1)] \<and>
        (case handleStream_step sample_env ps1 session_D (discover_subscribe ''chat'') of
           Inl p \<Rightarrow> False
         | Inr (ps2, s', ev) \<Rightarrow>
             map_store ps2 ! toNotify = [(''B'', 0), (''C'', 1), (''D'', 3)] \<and>
             mset (range_subscribers failing_env (map_store ps2 ! toNotify)) =
               mset (map_store ps2 ! toNotify) \<and>
             Register_broadcast failing_env ps2 d toNotify =
               [WriteMsg 3 d, WriteMsg 1 d, WriteMsg 0 d,
                LogError ''unable to notify rendezvous data update: broken pipe'']))"
proof -
  have h: "well_formed sample_pubsub"
    "map_of (topic_subscribers sample_pubsub ''chat'') (RemotePeer session_D) = None"
    by (simp_all add: sample_defs)
  have c: "case Register_publish sample_env sample_pubsub ''p1'' ''chat'' [[2]] 60 2 of
      (ps1, d, toNotify) \<Rightarrow>
        map_store ps1 ! toNotify = [(''B'', 0), (''C'', 1)] \<and>
        (case handleStream_step sample_env ps1 session_D (discover_subscribe ''chat'') of
           Inl p \<Rightarrow> False
         | Inr (ps2, s', ev) \<Rightarrow>
             map_store ps2 ! toNotify = [(''B'', 0), (''C'', 1), (''D'', 3)] \<and>
             mset (range_subscribers failing_env (map_store ps2 ! toNotify)) =
               mset (map_store ps2 ! toNotify) \<and>
             Register_broadcast failing_env ps2 d toNotify =
               [WriteMsg 3 d, WriteMsg 1 d, WriteMsg 0 d,
                LogError ''unable to notify rendezvous data update: broken pipe''])"
    by (simp add: sample_defs)
  from broadcast_reads_live_map [where ps = sample_pubsub and ns = "''chat''"
      and s = session_D and e = sample_env and pid = "''p1''" and addrs = "[[2]]"
      and ttl = 60 and c = 2 and ?e1.0 = sample_env and ?e2.0 = failing_env] h c
  show ?thesis by blast
qed

end
